theory Spec2Isabelle
  imports Main
begin

section \<open>Data model of index.ts\<close>

text \<open>
  \<^verbatim>\<open>type Address = `0x${string}`\<close> and \<^verbatim>\<open>type Slot = `0x${string}`\<close>: a string that
  starts with the two characters \<^verbatim>\<open>0x\<close>. A value \<open>Hex0x s\<close> stands for the JavaScript
  string \<^verbatim>\<open>"0x" + s\<close>; \<open>js_of\<close> gives that string back, which is what the program uses
  as a property name, and \<open>as_hex\<close> is the cast \<^verbatim>\<open>address as Address\<close> of a property name
  back (the program applies it to names it made from an \<^verbatim>\<open>Address\<close> or a \<^verbatim>\<open>Slot\<close> only).
  Nothing else is known of the characters after the prefix: they are opaque.
\<close>

datatype hexstring = Hex0x string

type_synonym Address = hexstring
type_synonym Slot = hexstring

fun js_of :: "hexstring \<Rightarrow> string" where
  "js_of (Hex0x s) = CHR ''0'' # CHR ''x'' # s"

definition as_hex :: "string \<Rightarrow> hexstring" where
  "as_hex p = Hex0x (drop 2 p)"

text \<open>\<^verbatim>\<open>interface Raw\<close>\<close>

record Raw =
  address :: Address
  key :: Slot
  original :: Slot
  dirty :: Slot

text \<open>
  \<^verbatim>\<open>interface StateDiff\<close>. The three decoded fields are declared \<^verbatim>\<open>null\<close>; they are
  options here, \<open>None\<close> being \<^verbatim>\<open>null\<close>, so that "the field is null" is a statement about
  a value and not forced by the type.
\<close>

record StateDiff =
  address :: Address
  raw :: "Raw list"
  soltype :: "string option"
  original :: "string option"
  dirty :: "string option"

text \<open>\<^verbatim>\<open>interface StorageValues\<close>\<close>

record StorageValues =
  original :: Slot
  dirty :: Slot

text \<open>
  \<^verbatim>\<open>interface TxData\<close>. A block number is a number read from JSON, which the program
  only compares with another: an integer here.
\<close>

record TxData =
  stateDiff :: "StateDiff list"
  blockNumber :: int

text \<open>Every \<^verbatim>\<open>throw new Error(...)\<close> of the program, and a failure of a collaborator.\<close>

datatype error =
    UnexpectedRawCount StateDiff
  | NotOrdered int int
  | MissingFilePath
  | External string

section \<open>JavaScript objects used as dictionaries\<close>

text \<open>
  An object literal \<^verbatim>\<open>{}\<close> that only ever receives string-keyed data properties: the
  list of its own properties in creation order. Reading a property that is absent gives
  \<^verbatim>\<open>undefined\<close> (\<open>None\<close>); assigning to a present property keeps its position, assigning
  to an absent one creates it last. Properties inherited from \<^verbatim>\<open>Object.prototype\<close> are
  left out: none of its names starts with \<^verbatim>\<open>0x\<close>, and the program only reads and
  writes names of that form.
\<close>

type_synonym 'v js_object = "(string \<times> 'v) list"

definition get_prop :: "'v js_object \<Rightarrow> string \<Rightarrow> 'v option" where
  "get_prop obj p = map_of obj p"

fun set_prop :: "'v js_object \<Rightarrow> string \<Rightarrow> 'v \<Rightarrow> 'v js_object" where
  "set_prop [] p v = [(p, v)]"
| "set_prop ((q, w) # ps) p v = (if q = p then (p, v) # ps else (q, w) # set_prop ps p v)"

text \<open>
  \<^verbatim>\<open>Object.entries\<close> lists the own properties whose name is an array index first, in
  ascending numeric order, and then the others in creation order. An array index is the
  canonical decimal form of an integer below \<open>2^32 - 1\<close>.
\<close>

definition is_digit :: "char \<Rightarrow> bool" where
  "is_digit c = (c \<in> set ''0123456789'')"

definition decimal_value :: "string \<Rightarrow> nat" where
  "decimal_value s = foldl (\<lambda>n c. 10 * n + (of_char c - 48)) 0 s"

definition is_array_index :: "string \<Rightarrow> bool" where
  "is_array_index s =
     (s \<noteq> [] \<and> list_all is_digit s \<and> (s = ''0'' \<or> hd s \<noteq> CHR ''0'')
      \<and> decimal_value s < 2 ^ 32 - 1)"

definition Object_entries :: "'v js_object \<Rightarrow> (string \<times> 'v) list" where
  "Object_entries obj =
     sort_key (\<lambda>(p, v). decimal_value p) (filter (\<lambda>(p, v). is_array_index p) obj)
     @ filter (\<lambda>(p, v). \<not> is_array_index p) obj"

section \<open>computeNetStateDiff\<close>

type_synonym NetStateDiff = "StorageValues js_object js_object"

text \<open>
  The body of the inner loop, for one raw diff. The stored values are objects, which are
  always truthy, so \<^verbatim>\<open>!netStateDiff[raw.address]\<close> holds exactly when the property is
  absent, and likewise for the slot. \<open>slots0\<close> is \<^verbatim>\<open>netStateDiff[raw.address]\<close> after the
  first \<^verbatim>\<open>if\<close>, \<open>slots1\<close> after the second, \<open>slots2\<close> after the assignment to
  \<^verbatim>\<open>.dirty\<close>; the inner object is shared with the outer one, so the outer property
  holds \<open>slots2\<close> in the end, at the position it already had.
\<close>

definition accumulate :: "Raw \<Rightarrow> NetStateDiff \<Rightarrow> NetStateDiff" where
  "accumulate r net =
     (let a = js_of (Raw.address r);
          k = js_of (Raw.key r);
          net1 = (case get_prop net a of None \<Rightarrow> set_prop net a [] | Some s \<Rightarrow> net);
          slots0 = (case get_prop net a of None \<Rightarrow> [] | Some s \<Rightarrow> s);
          slots1 = (case get_prop slots0 k of
                      None \<Rightarrow> set_prop slots0 k
                                \<lparr>StorageValues.original = Raw.original r,
                                 StorageValues.dirty = Raw.dirty r\<rparr>
                    | Some v \<Rightarrow> slots0);
          values1 = (case get_prop slots0 k of
                       None \<Rightarrow> \<lparr>StorageValues.original = Raw.original r,
                                StorageValues.dirty = Raw.dirty r\<rparr>
                     | Some v \<Rightarrow> v);
          slots2 = set_prop slots1 k (values1\<lparr>StorageValues.dirty := Raw.dirty r\<rparr>)
      in set_prop net1 a slots2)"

text \<open>
  The first loop: an entry whose raw list has not exactly one element throws, at once;
  otherwise each raw diff of the entry is accumulated.
\<close>

fun merge_loop :: "StateDiff list \<Rightarrow> NetStateDiff \<Rightarrow> error + NetStateDiff" where
  "merge_loop [] net = Inr net"
| "merge_loop (sd # sds) net =
     (if length (raw sd) \<noteq> 1 then Inl (UnexpectedRawCount sd)
      else merge_loop sds (fold accumulate (raw sd) net))"

text \<open>The second loop: one record per slot of each address, in the order of \<^verbatim>\<open>Object.entries\<close>.\<close>

definition emit_slot :: "string \<Rightarrow> string \<times> StorageValues \<Rightarrow> StateDiff" where
  "emit_slot a kv =
     \<lparr>StateDiff.address = as_hex a,
      raw = [\<lparr>Raw.address = as_hex a, key = as_hex (fst kv),
              Raw.original = StorageValues.original (snd kv),
              Raw.dirty = StorageValues.dirty (snd kv)\<rparr>],
      soltype = None, StateDiff.original = None, StateDiff.dirty = None\<rparr>"

definition emit :: "NetStateDiff \<Rightarrow> StateDiff list" where
  "emit net =
     concat (map (\<lambda>(a, keyAndStorage). map (emit_slot a) (Object_entries keyAndStorage))
                 (Object_entries net))"

definition computeNetStateDiff :: "StateDiff list \<Rightarrow> error + StateDiff list" where
  "computeNetStateDiff stateDiffs =
     (case merge_loop stateDiffs [] of Inl e \<Rightarrow> Inl e | Inr net \<Rightarrow> Inr (emit net))"

section \<open>main\<close>

text \<open>
  The effects of a run, in the order they happen: the calls of \<^verbatim>\<open>getStateDiff\<close>, the call
  of \<^verbatim>\<open>computeNetStateDiff\<close>, and the final write of the output file.
\<close>

datatype call =
    GetStateDiff string
  | ComputeNetStateDiff "StateDiff list"
  | WriteOutput string "StateDiff list"

text \<open>
  \<^verbatim>\<open>String.prototype.split\<close> with a separator of one character: the pieces between the
  separators, empty pieces included; the empty string gives one empty piece.
\<close>

fun split :: "char \<Rightarrow> string \<Rightarrow> string list" where
  "split c [] = [[]]"
| "split c (x # xs) =
     (if x = c then [] # split c xs
      else (case split c xs of [] \<Rightarrow> [[x]] | p # ps \<Rightarrow> (x # p) # ps))"

definition startsWith :: "string \<Rightarrow> string \<Rightarrow> bool" where
  "startsWith s p = (take (length p) s = p)"

text \<open>
  \<^verbatim>\<open>getStateDiff\<close> chooses between its two sources by the prefix of its argument. The
  sources are outside the program (the Tenderly API, the file system): they are
  parameters, functions of the state of the world \<open>'w\<close> that may fail.
\<close>

definition getStateDiff ::
  "(string \<Rightarrow> 'w \<Rightarrow> (error + TxData) \<times> 'w) \<Rightarrow> (string \<Rightarrow> 'w \<Rightarrow> (error + TxData) \<times> 'w)
   \<Rightarrow> string \<Rightarrow> 'w \<Rightarrow> (error + TxData) \<times> 'w" where
  "getStateDiff fetchTrace readSimulation transactionHashOrFilePath w =
     (if startsWith transactionHashOrFilePath ''0x''
      then fetchTrace transactionHashOrFilePath w
      else readSimulation transactionHashOrFilePath w)"

text \<open>\<^verbatim>\<open>fileContent.split("\n").filter(Boolean)\<close>: the empty string is the only falsy string.\<close>

definition lines_of :: "string \<Rightarrow> string list" where
  "lines_of fileContent = filter (\<lambda>l. l \<noteq> []) (split (CHR 0x0A) fileContent)"

text \<open>
  The loop over the lines. \<open>g\<close> is \<^verbatim>\<open>getStateDiff\<close>; a failure of it ends the run. The
  destructuring \<^verbatim>\<open>const [transactionHashOrFilePath] = line.split(" ")\<close> takes the first
  piece (on no piece at all it would bind \<^verbatim>\<open>undefined\<close>, on which \<^verbatim>\<open>startsWith\<close> is a
  TypeError).
\<close>

fun resolve_lines ::
  "(string \<Rightarrow> 'w \<Rightarrow> (error + TxData) \<times> 'w) \<Rightarrow> string list \<Rightarrow> TxData list
   \<Rightarrow> 'w \<times> call list \<Rightarrow> (error + TxData list) \<times> ('w \<times> call list)" where
  "resolve_lines g [] txData s = (Inr txData, s)"
| "resolve_lines g (line # lines) txData (w, tr) =
     (if startsWith line ''#'' \<or> startsWith line ''//'' then resolve_lines g lines txData (w, tr)
      else (case split CHR '' '' line of
              [] \<Rightarrow> (Inl (External ''TypeError''), (w, tr))
            | transactionHashOrFilePath # rest \<Rightarrow>
                (case g transactionHashOrFilePath w of
                   (Inl e, w') \<Rightarrow> (Inl e, (w', tr @ [GetStateDiff transactionHashOrFilePath]))
                 | (Inr sim, w') \<Rightarrow>
                     resolve_lines g lines (txData @ [sim])
                       (w', tr @ [GetStateDiff transactionHashOrFilePath]))))"

text \<open>
  \<^verbatim>\<open>for (let i = 1; i < txData.length; i++)\<close>: the check that the block numbers do not
  decrease, started at \<open>i = 1\<close>.
\<close>

function validate_order :: "nat \<Rightarrow> TxData list \<Rightarrow> error + unit" where
  "validate_order i txData =
     (if i < length txData then
        (if blockNumber (txData ! i) < blockNumber (txData ! (i - 1))
         then Inl (NotOrdered (blockNumber (txData ! (i - 1))) (blockNumber (txData ! i)))
         else validate_order (i + 1) txData)
      else Inr ())"
  by pat_completeness auto
termination
  by (relation "measure (\<lambda>(i, txData). length txData - i)") auto

declare validate_order.simps [simp del]

text \<open>
  \<^verbatim>\<open>main\<close>. \<open>argv2\<close> is \<^verbatim>\<open>process.argv[2]\<close>, absent or a string (the empty one is falsy
  too). \<open>readFile\<close> reads the list file; \<open>writeOutput\<close> stands for the last lines, which
  create the output directory and write the JSON file named after \<open>filePath\<close>. The
  result is the error thrown, if any, the world, and the calls made.
\<close>

definition main ::
  "(string \<Rightarrow> 'w \<Rightarrow> (error + TxData) \<times> 'w) \<Rightarrow> (string \<Rightarrow> 'w \<Rightarrow> (error + TxData) \<times> 'w)
   \<Rightarrow> (string \<Rightarrow> 'w \<Rightarrow> (error + string) \<times> 'w)
   \<Rightarrow> (string \<Rightarrow> StateDiff list \<Rightarrow> 'w \<Rightarrow> (error + unit) \<times> 'w)
   \<Rightarrow> string option \<Rightarrow> 'w \<Rightarrow> (error + unit) \<times> ('w \<times> call list)" where
  "main fetchTrace readSimulation readFile writeOutput argv2 w =
     (case argv2 of
        None \<Rightarrow> (Inl MissingFilePath, (w, []))
      | Some filePath \<Rightarrow>
          if filePath = [] then (Inl MissingFilePath, (w, []))
          else (case readFile filePath w of
                  (Inl e, w1) \<Rightarrow> (Inl e, (w1, []))
                | (Inr fileContent, w1) \<Rightarrow>
                    (case resolve_lines (getStateDiff fetchTrace readSimulation)
                            (lines_of fileContent) [] (w1, []) of
                       (Inl e, s) \<Rightarrow> (Inl e, s)
                     | (Inr txData, (w2, tr)) \<Rightarrow>
                         (case validate_order 1 txData of
                            Inl e \<Rightarrow> (Inl e, (w2, tr))
                          | Inr u \<Rightarrow>
                              (let stateDiffs = concat (map stateDiff txData);
                                   tr' = tr @ [ComputeNetStateDiff stateDiffs] in
                               case computeNetStateDiff stateDiffs of
                                 Inl e \<Rightarrow> (Inl e, (w2, tr'))
                               | Inr netStateDiff \<Rightarrow>
                                   (case writeOutput filePath netStateDiff w2 of
                                      (r, w3) \<Rightarrow>
                                        (r, (w3, tr' @ [WriteOutput filePath netStateDiff]))))))))"

section \<open>What the merge is to compute\<close>

text \<open>
  The raw diffs of an input in input order, and the notions the description of the merge
  uses: the distinct elements of a list in the order they are first seen, the raw diffs
  on one address and on one slot of an address.
\<close>

definition raw_diffs :: "StateDiff list \<Rightarrow> Raw list" where
  "raw_diffs stateDiffs = concat (map raw stateDiffs)"

definition slot_of :: "Raw \<Rightarrow> Address \<times> Slot" where
  "slot_of r = (Raw.address r, Raw.key r)"

fun first_seen :: "'a list \<Rightarrow> 'a list" where
  "first_seen [] = []"
| "first_seen (x # xs) = x # filter (\<lambda>y. y \<noteq> x) (first_seen xs)"

definition on_address :: "Address \<Rightarrow> Raw list \<Rightarrow> Raw list" where
  "on_address a rs = filter (\<lambda>r. Raw.address r = a) rs"

definition on_slot :: "Address \<Rightarrow> Slot \<Rightarrow> Raw list \<Rightarrow> Raw list" where
  "on_slot a k rs = filter (\<lambda>r. Raw.address r = a \<and> Raw.key r = k) rs"

text \<open>The net values of a slot: the original of its first raw diff, the dirty of its last.\<close>

definition net_values :: "Address \<Rightarrow> Slot \<Rightarrow> Raw list \<Rightarrow> StorageValues" where
  "net_values a k rs =
     \<lparr>StorageValues.original = Raw.original (hd (on_slot a k rs)),
      StorageValues.dirty = Raw.dirty (last (on_slot a k rs))\<rparr>"

text \<open>The accumulator after the raw diffs \<open>rs\<close>, written down directly.\<close>

definition slots_spec :: "Address \<Rightarrow> Raw list \<Rightarrow> StorageValues js_object" where
  "slots_spec a rs =
     map (\<lambda>k. (js_of k, net_values a k rs)) (first_seen (map Raw.key (on_address a rs)))"

definition net_spec :: "Raw list \<Rightarrow> NetStateDiff" where
  "net_spec rs = map (\<lambda>a. (js_of a, slots_spec a rs)) (first_seen (map Raw.address rs))"

text \<open>
  First-seen order grouped by address: the addresses in the order they are first seen,
  and for each address its keys in the order they are first seen.
\<close>

definition slot_order :: "Raw list \<Rightarrow> (Address \<times> Slot) list" where
  "slot_order rs =
     concat (map (\<lambda>a. map (Pair a) (first_seen (map Raw.key (on_address a rs))))
                 (first_seen (map Raw.address rs)))"

text \<open>The output record of a slot.\<close>

definition net_record :: "Address \<Rightarrow> Slot \<Rightarrow> Slot \<Rightarrow> Slot \<Rightarrow> StateDiff" where
  "net_record a k x y =
     \<lparr>StateDiff.address = a,
      raw = [\<lparr>Raw.address = a, key = k, Raw.original = x, Raw.dirty = y\<rparr>],
      soltype = None, StateDiff.original = None, StateDiff.dirty = None\<rparr>"

text \<open>
  The output record of a slot \<open>p\<close> after the raw diffs \<open>rs\<close>, and the raw diff in it.
\<close>

definition net_record_of :: "Raw list \<Rightarrow> Address \<times> Slot \<Rightarrow> StateDiff" where
  "net_record_of rs p =
     net_record (fst p) (snd p) (Raw.original (hd (on_slot (fst p) (snd p) rs)))
       (Raw.dirty (last (on_slot (fst p) (snd p) rs)))"

definition net_raw_of :: "Raw list \<Rightarrow> Address \<times> Slot \<Rightarrow> Raw" where
  "net_raw_of rs p =
     \<lparr>Raw.address = fst p, key = snd p,
      Raw.original = Raw.original (hd (on_slot (fst p) (snd p) rs)),
      Raw.dirty = Raw.dirty (last (on_slot (fst p) (snd p) rs))\<rparr>"

text \<open>The records of an output that are about a given slot.\<close>

definition records_for :: "Address \<Rightarrow> Slot \<Rightarrow> StateDiff list \<Rightarrow> StateDiff list" where
  "records_for a k out = filter (\<lambda>sd. \<exists>rw \<in> set (raw sd). slot_of rw = (a, k)) out"

section \<open>What main is to resolve\<close>

text \<open>The arguments of the calls of \<^verbatim>\<open>getStateDiff\<close> in a list of calls, in order.\<close>

definition requested :: "call list \<Rightarrow> string list" where
  "requested tr = concat (map (\<lambda>c. case c of GetStateDiff t \<Rightarrow> [t] | _ \<Rightarrow> []) tr)"

text \<open>A comment line, and the first piece of a list of lines that are not comments.\<close>

definition is_comment :: "string \<Rightarrow> bool" where
  "is_comment l = (startsWith l ''#'' \<or> startsWith l ''//'')"

definition tokens_of :: "string list \<Rightarrow> string list" where
  "tokens_of ls = map (takeWhile (\<lambda>c. c \<noteq> CHR '' '')) (filter (\<lambda>l. \<not> is_comment l) ls)"

text \<open>
  The entries of a list file as the program reads them: of every line that is neither
  empty nor a comment, the text before its first space.
\<close>

definition entries :: "string \<Rightarrow> string list" where
  "entries fileContent =
     map (takeWhile (\<lambda>c. c \<noteq> CHR '' ''))
       (filter (\<lambda>l. l \<noteq> [] \<and> \<not> is_comment l) (split (CHR 0x0A) fileContent))"

text \<open>
  The entries of a list file as the description has them: of every line that is neither
  blank nor a comment, the first token delimited by whitespace.
\<close>

definition is_whitespace :: "char \<Rightarrow> bool" where
  "is_whitespace c = (c \<in> set [CHR '' '', CHR 0x09, CHR 0x0A, CHR 0x0B, CHR 0x0C, CHR 0x0D])"

definition claimed_entries :: "string \<Rightarrow> string list" where
  "claimed_entries fileContent =
     map (\<lambda>l. takeWhile (\<lambda>c. \<not> is_whitespace c) (dropWhile is_whitespace l))
       (filter (\<lambda>l. \<not> list_all is_whitespace l \<and> \<not> is_comment l) (split (CHR 0x0A) fileContent))"

section \<open>Examples\<close>

text \<open>An input entry as Tenderly gives it, for the examples.\<close>

definition example_entry :: "string \<Rightarrow> string \<Rightarrow> string \<Rightarrow> string \<Rightarrow> StateDiff" where
  "example_entry a k x y =
     \<lparr>StateDiff.address = Hex0x a,
      raw = [\<lparr>Raw.address = Hex0x a, key = Hex0x k, Raw.original = Hex0x x,
              Raw.dirty = Hex0x y\<rparr>],
      soltype = None, StateDiff.original = None, StateDiff.dirty = None\<rparr>"

text \<open>The example of the documentation: two transactions, three slots.\<close>

definition example_input :: "StateDiff list" where
  "example_input =
     [example_entry ''a1'' ''k1'' ''00'' ''01'', example_entry ''a1'' ''k2'' ''02'' ''03'',
      example_entry ''a2'' ''k3'' ''04'' ''05'', example_entry ''a1'' ''k1'' ''01'' ''06'']"

definition example_output :: "StateDiff list" where
  "example_output =
     [example_entry ''a1'' ''k1'' ''00'' ''06'', example_entry ''a1'' ''k2'' ''02'' ''03'',
      example_entry ''a2'' ''k3'' ''04'' ''05'']"

text \<open>A slot written and written back, and an entry with no raw diff.\<close>

definition roundtrip_input :: "StateDiff list" where
  "roundtrip_input =
     [example_entry ''a1'' ''k1'' ''0a'' ''0b'', example_entry ''a1'' ''k1'' ''0b'' ''0a'']"

definition empty_raw_entry :: StateDiff where
  "empty_raw_entry =
     \<lparr>StateDiff.address = Hex0x ''a1'', raw = [], soltype = None, StateDiff.original = None,
      StateDiff.dirty = None\<rparr>"

text \<open>
  Collaborators for the examples: a source that resolves every entry to a transaction
  with no state diff, in the block whose number is the length of the entry; a list file
  with a given content; a write that succeeds.
\<close>

definition sample_source :: "string \<Rightarrow> unit \<Rightarrow> (error + TxData) \<times> unit" where
  "sample_source t w = (Inr \<lparr>stateDiff = [], blockNumber = int (length t)\<rparr>, w)"

definition sample_readFile :: "string \<Rightarrow> string \<Rightarrow> unit \<Rightarrow> (error + string) \<times> unit" where
  "sample_readFile fileContent p w = (Inr fileContent, w)"

definition sample_writeOutput :: "string \<Rightarrow> StateDiff list \<Rightarrow> unit \<Rightarrow> (error + unit) \<times> unit" where
  "sample_writeOutput p net w = (Inr (), w)"

definition sample_main :: "string \<Rightarrow> (error + unit) \<times> (unit \<times> call list)" where
  "sample_main fileContent =
     main sample_source sample_source (sample_readFile fileContent) sample_writeOutput
       (Some ''list.txt'') ()"

definition tx_at :: "int \<Rightarrow> TxData" where
  "tx_at n = \<lparr>stateDiff = [], blockNumber = n\<rparr>"

text \<open>
  Three list files: one whose entries are in the blocks 5, 7 and 6; one whose entry is
  followed by a tab and a comment; one with comments, an empty line and trailing words.
\<close>

definition unordered_file :: string where
  "unordered_file = ''0x567'' @ [CHR 0x0A] @ ''0x56789'' @ [CHR 0x0A] @ ''0x5678'' @ [CHR 0x0A]"

definition tab_file :: string where
  "tab_file = ''0xab'' @ [CHR 0x09] @ ''# note''"

definition list_file :: string where
  "list_file = ''# Data'' @ [CHR 0x0A] @ ''0x567 # first'' @ [CHR 0x0A] @ [CHR 0x0A]
               @ ''// skip'' @ [CHR 0x0A] @ ''./sim.json trailing words'' @ [CHR 0x0A]"

section \<open>Objects whose property names are hex strings\<close>

lemma set_first_seen [simp]: "set (first_seen xs) = set xs"
  by (induction xs) auto

lemma distinct_first_seen [simp]: "distinct (first_seen xs)"
  by (induction xs) auto

lemma first_seen_snoc:
  "first_seen (xs @ [x]) = (if x \<in> set xs then first_seen xs else first_seen xs @ [x])"
  by (induction xs) auto

lemma inj_js_of: "inj js_of"
proof (rule injI)
  fix a b assume "js_of a = js_of b"
  then show "a = b" by (cases a; cases b) simp
qed

lemma js_of_eq [simp]: "js_of a = js_of b \<longleftrightarrow> a = b"
  using inj_js_of by (auto dest: injD)

lemma as_hex_js_of [simp]: "as_hex (js_of a) = a"
  by (cases a) (simp add: as_hex_def)

lemma not_index_js_of [simp]: "\<not> is_array_index (js_of a)"
  by (cases a) (simp add: is_array_index_def is_digit_def)

lemma get_prop_map:
  "get_prop (map (\<lambda>x. (js_of x, g x)) xs) (js_of y) = (if y \<in> set xs then Some (g y) else None)"
  by (induction xs) (auto simp: get_prop_def)

lemma set_prop_map_absent:
  "y \<notin> set xs \<Longrightarrow>
   set_prop (map (\<lambda>x. (js_of x, g x)) xs) (js_of y) v = map (\<lambda>x. (js_of x, g x)) xs @ [(js_of y, v)]"
  by (induction xs) auto

lemma set_prop_map_present:
  "y \<in> set xs \<Longrightarrow> distinct xs \<Longrightarrow>
   set_prop (map (\<lambda>x. (js_of x, g x)) xs) (js_of y) v
     = map (\<lambda>x. (js_of x, if x = y then v else g x)) xs"
  by (induction xs) auto

text \<open>
  The order of \<open>Object_entries\<close> is the creation order only for names that are not array
  indices: created in the order \<^verbatim>\<open>"0x2"\<close>, \<^verbatim>\<open>"2"\<close>, \<^verbatim>\<open>"1"\<close>, the properties are listed
  as \<^verbatim>\<open>"1"\<close>, \<^verbatim>\<open>"2"\<close>, \<^verbatim>\<open>"0x2"\<close>. A hex string is never an array index.
\<close>

lemma Object_entries_index_order:
  "Object_entries (set_prop (set_prop (set_prop [] ''0x2'' a) ''2'' b) ''1'' c)
     = [(''1'', c), (''2'', b), (''0x2'', a)]"
  by (simp add: Object_entries_def is_array_index_def is_digit_def decimal_value_def)

lemma Object_entries_named:
  "\<forall>p \<in> fst ` set obj. \<not> is_array_index p \<Longrightarrow> Object_entries obj = obj"
proof -
  assume h: "\<forall>p \<in> fst ` set obj. \<not> is_array_index p"
  then have "filter (\<lambda>(p, v). is_array_index p) obj = []"
    by (auto simp: filter_empty_conv)
  moreover from h have "filter (\<lambda>(p, v). \<not> is_array_index p) obj = obj"
    by (auto simp: filter_id_conv)
  ultimately show ?thesis by (simp add: Object_entries_def)
qed

lemma set_prop_twice [simp]: "set_prop (set_prop obj p v) p w = set_prop obj p w"
  by (induction obj) auto

lemma set_prop_Nil_case:
  "set_prop (case get_prop net a of None \<Rightarrow> set_prop net a [] | Some s \<Rightarrow> net) a v = set_prop net a v"
  by (cases "get_prop net a") simp_all

lemma dirty_update_eq:
  "v\<lparr>StorageValues.dirty := d\<rparr> = \<lparr>StorageValues.original = StorageValues.original v, StorageValues.dirty = d\<rparr>"
  by (cases v) simp

lemma accumulate_eq:
  "accumulate r net =
     (let slots0 = (case get_prop net (js_of (Raw.address r)) of None \<Rightarrow> [] | Some s \<Rightarrow> s)
      in set_prop net (js_of (Raw.address r))
           (set_prop slots0 (js_of (Raw.key r))
              \<lparr>StorageValues.original =
                 (case get_prop slots0 (js_of (Raw.key r)) of
                    None \<Rightarrow> Raw.original r | Some v \<Rightarrow> StorageValues.original v),
               StorageValues.dirty = Raw.dirty r\<rparr>))"
  unfolding accumulate_def Let_def set_prop_Nil_case
  by (cases "get_prop (case get_prop net (js_of (Raw.address r)) of None \<Rightarrow> [] | Some s \<Rightarrow> s) (js_of (Raw.key r))")
    (simp_all add: dirty_update_eq)

lemma on_slot_snoc:
  "on_slot a k (rs @ [r]) =
     (if Raw.address r = a \<and> Raw.key r = k then on_slot a k rs @ [r] else on_slot a k rs)"
  by (simp add: on_slot_def)

lemma on_address_snoc:
  "on_address a (rs @ [r]) = (if Raw.address r = a then on_address a rs @ [r] else on_address a rs)"
  by (simp add: on_address_def)

lemma on_slot_Nil_iff: "on_slot a k rs = [] \<longleftrightarrow> k \<notin> Raw.key ` set (on_address a rs)"
  by (auto simp: on_slot_def on_address_def filter_empty_conv)

lemma net_values_other:
  "\<not> (Raw.address r = a \<and> Raw.key r = k) \<Longrightarrow> net_values a k (rs @ [r]) = net_values a k rs"
  by (auto simp: net_values_def on_slot_snoc)

lemma net_values_new:
  "Raw.key r \<notin> Raw.key ` set (on_address (Raw.address r) rs) \<Longrightarrow>
   net_values (Raw.address r) (Raw.key r) (rs @ [r])
     = \<lparr>StorageValues.original = Raw.original r, StorageValues.dirty = Raw.dirty r\<rparr>"
  using on_slot_Nil_iff [of "Raw.address r" "Raw.key r" rs]
  by (simp add: net_values_def on_slot_snoc)

lemma net_values_again:
  "Raw.key r \<in> Raw.key ` set (on_address (Raw.address r) rs) \<Longrightarrow>
   net_values (Raw.address r) (Raw.key r) (rs @ [r])
     = \<lparr>StorageValues.original = StorageValues.original (net_values (Raw.address r) (Raw.key r) rs),
        StorageValues.dirty = Raw.dirty r\<rparr>"
  using on_slot_Nil_iff [of "Raw.address r" "Raw.key r" rs]
  by (simp add: net_values_def on_slot_snoc)

lemma slots_spec_other:
  "Raw.address r \<noteq> a \<Longrightarrow> slots_spec a (rs @ [r]) = slots_spec a rs"
  by (simp add: slots_spec_def on_address_snoc net_values_other)

lemma slots_spec_same:
  "slots_spec (Raw.address r) (rs @ [r]) =
     set_prop (slots_spec (Raw.address r) rs) (js_of (Raw.key r))
       \<lparr>StorageValues.original =
          (case get_prop (slots_spec (Raw.address r) rs) (js_of (Raw.key r)) of
             None \<Rightarrow> Raw.original r | Some v \<Rightarrow> StorageValues.original v),
        StorageValues.dirty = Raw.dirty r\<rparr>"
proof -
  let ?a = "Raw.address r" and ?k = "Raw.key r"
  let ?ks = "first_seen (map Raw.key (on_address ?a rs))"
  have others: "net_values ?a k (rs @ [r]) = net_values ?a k rs" if "k \<noteq> ?k" for k
    using that by (simp add: net_values_other)
  show ?thesis
  proof (cases "?k \<in> Raw.key ` set (on_address ?a rs)")
    case True
    have "slots_spec ?a (rs @ [r]) = map (\<lambda>k. (js_of k, net_values ?a k (rs @ [r]))) ?ks"
      using True by (simp add: slots_spec_def on_address_snoc first_seen_snoc)
    also have "\<dots> = map (\<lambda>k. (js_of k, if k = ?k then net_values ?a ?k (rs @ [r])
                                        else net_values ?a k rs)) ?ks"
      by (rule map_cong) (simp_all add: others)
    also have "\<dots> = set_prop (slots_spec ?a rs) (js_of ?k) (net_values ?a ?k (rs @ [r]))"
      using True by (simp add: slots_spec_def set_prop_map_present)
    finally show ?thesis
      using True by (simp add: net_values_again slots_spec_def get_prop_map)
  next
    case False
    have "slots_spec ?a (rs @ [r]) =
            map (\<lambda>k. (js_of k, net_values ?a k (rs @ [r]))) ?ks
            @ [(js_of ?k, net_values ?a ?k (rs @ [r]))]"
      using False by (simp add: slots_spec_def on_address_snoc first_seen_snoc)
    also have "map (\<lambda>k. (js_of k, net_values ?a k (rs @ [r]))) ?ks = slots_spec ?a rs"
    proof -
      have "k \<noteq> ?k" if "k \<in> set ?ks" for k
        using that False by (fastforce simp: image_iff)
      then show ?thesis
        unfolding slots_spec_def by (intro map_cong) (simp_all add: others)
    qed
    also have "slots_spec ?a rs @ [(js_of ?k, net_values ?a ?k (rs @ [r]))]
                 = set_prop (slots_spec ?a rs) (js_of ?k) (net_values ?a ?k (rs @ [r]))"
      using False by (simp add: slots_spec_def set_prop_map_absent)
    finally show ?thesis
      using False by (simp add: net_values_new slots_spec_def get_prop_map)
  qed
qed

lemma net_spec_snoc:
  "net_spec (rs @ [r]) =
     set_prop (net_spec rs) (js_of (Raw.address r)) (slots_spec (Raw.address r) (rs @ [r]))"
proof -
  let ?a = "Raw.address r"
  let ?as = "first_seen (map Raw.address rs)"
  show ?thesis
  proof (cases "?a \<in> Raw.address ` set rs")
    case True
    have "net_spec (rs @ [r]) = map (\<lambda>a. (js_of a, slots_spec a (rs @ [r]))) ?as"
      using True by (simp add: net_spec_def first_seen_snoc)
    also have "\<dots> = map (\<lambda>a. (js_of a, if a = ?a then slots_spec ?a (rs @ [r])
                                        else slots_spec a rs)) ?as"
      by (rule map_cong) (simp_all add: slots_spec_other)
    also have "\<dots> = set_prop (net_spec rs) (js_of ?a) (slots_spec ?a (rs @ [r]))"
      using True by (simp add: net_spec_def set_prop_map_present)
    finally show ?thesis .
  next
    case False
    have "net_spec (rs @ [r]) =
            map (\<lambda>a. (js_of a, slots_spec a (rs @ [r]))) ?as @ [(js_of ?a, slots_spec ?a (rs @ [r]))]"
      using False by (simp add: net_spec_def first_seen_snoc)
    also have "map (\<lambda>a. (js_of a, slots_spec a (rs @ [r]))) ?as = net_spec rs"
    proof -
      have "?a \<noteq> a" if "a \<in> set ?as" for a
        using that False by auto
      then show ?thesis
        unfolding net_spec_def by (intro map_cong) (simp_all add: slots_spec_other)
    qed
    also have "net_spec rs @ [(js_of ?a, slots_spec ?a (rs @ [r]))]
                 = set_prop (net_spec rs) (js_of ?a) (slots_spec ?a (rs @ [r]))"
      using False by (simp add: net_spec_def set_prop_map_absent)
    finally show ?thesis .
  qed
qed

lemma slots_spec_absent: "a \<notin> Raw.address ` set rs \<Longrightarrow> slots_spec a rs = []"
proof -
  assume "a \<notin> Raw.address ` set rs"
  then have "on_address a rs = []"
    by (auto simp: on_address_def filter_empty_conv)
  then show ?thesis by (simp add: slots_spec_def)
qed

lemma get_prop_net_spec:
  "(case get_prop (net_spec rs) (js_of a) of None \<Rightarrow> [] | Some s \<Rightarrow> s) = slots_spec a rs"
  by (simp add: net_spec_def get_prop_map slots_spec_absent)

lemma accumulate_net_spec: "accumulate r (net_spec rs) = net_spec (rs @ [r])"
  by (simp add: accumulate_eq get_prop_net_spec net_spec_snoc slots_spec_same Let_def)

lemma fold_accumulate: "fold accumulate rs [] = net_spec rs"
proof (induction rs rule: rev_induct)
  case Nil
  show ?case by (simp add: net_spec_def)
next
  case (snoc r rs)
  then show ?case by (simp add: accumulate_net_spec)
qed


section \<open>The raw-count contract\<close>

lemma merge_loop_all_single:
  "\<forall>sd \<in> set sds. length (raw sd) = 1 \<Longrightarrow>
   merge_loop sds net = Inr (fold accumulate (raw_diffs sds) net)"
  by (induction sds arbitrary: net) (simp_all add: raw_diffs_def)

lemma merge_loop_some_other:
  "\<exists>sd \<in> set sds. length (raw sd) \<noteq> 1 \<Longrightarrow> \<exists>sd. merge_loop sds net = Inl (UnexpectedRawCount sd)"
  by (induction sds arbitrary: net) auto

lemma computeNetStateDiff_Inr_iff:
  "(\<exists>out. computeNetStateDiff sds = Inr out) \<longleftrightarrow> (\<forall>sd \<in> set sds. length (raw sd) = 1)"
proof
  assume "\<exists>out. computeNetStateDiff sds = Inr out"
  then show "\<forall>sd \<in> set sds. length (raw sd) = 1"
    using merge_loop_some_other [of sds "[]"]
    by (auto simp: computeNetStateDiff_def split: sum.splits)
next
  assume "\<forall>sd \<in> set sds. length (raw sd) = 1"
  then show "\<exists>out. computeNetStateDiff sds = Inr out"
    by (simp add: computeNetStateDiff_def merge_loop_all_single)
qed

text \<open>
  C10: when every entry of the input has exactly one raw diff, computeNetStateDiff does
  not throw but returns a list; the empty input gives the empty list. (The model is a
  total function, so returning is the value \<open>Inr\<close> and throwing the value \<open>Inl\<close>.)
\<close>

theorem C10_total_on_single_raw:
  "computeNetStateDiff [] = Inr []
   \<and> ((\<forall>sd \<in> set stateDiffs. length (raw sd) = 1) \<longrightarrow>
        (\<exists>out. computeNetStateDiff stateDiffs = Inr out)
        \<and> (\<forall>e. computeNetStateDiff stateDiffs \<noteq> Inl e))"
  by (auto simp: computeNetStateDiff_def merge_loop_all_single emit_def Object_entries_def)

theorem C10_total_on_single_raw_witness:
  "length (raw (example_entry ''a1'' ''01'' ''00'' ''0b'')) = 1
   \<and> (\<exists>out. computeNetStateDiff [example_entry ''a1'' ''01'' ''00'' ''0b''] = Inr out)
   \<and> computeNetStateDiff [] = Inr []"
  using C10_total_on_single_raw [of "[example_entry ''a1'' ''01'' ''00'' ''0b'']"]
  by (simp add: example_entry_def)

section \<open>The output of computeNetStateDiff\<close>

lemma Object_entries_slots_spec [simp]: "Object_entries (slots_spec a rs) = slots_spec a rs"
  by (rule Object_entries_named) (auto simp: slots_spec_def)

lemma Object_entries_net_spec [simp]: "Object_entries (net_spec rs) = net_spec rs"
  by (rule Object_entries_named) (auto simp: net_spec_def)

lemma emit_slot_js_of:
  "emit_slot (js_of a) (js_of k, v) = net_record a k (StorageValues.original v) (StorageValues.dirty v)"
  by (simp add: emit_slot_def net_record_def)

lemma emit_slots_spec:
  "map (emit_slot (js_of a)) (slots_spec a rs)
     = map (\<lambda>k. net_record_of rs (a, k)) (first_seen (map Raw.key (on_address a rs)))"
  by (simp add: slots_spec_def emit_slot_js_of net_values_def net_record_of_def)

lemma emit_net_spec: "emit (net_spec rs) = map (net_record_of rs) (slot_order rs)"
proof -
  have "emit (net_spec rs) =
          concat (map (\<lambda>(a, keyAndStorage). map (emit_slot a) (Object_entries keyAndStorage))
                      (net_spec rs))"
    by (simp add: emit_def)
  also have "\<dots> = concat (map (\<lambda>a. map (emit_slot (js_of a)) (Object_entries (slots_spec a rs)))
                              (first_seen (map Raw.address rs)))"
    by (simp add: net_spec_def comp_def)
  also have "\<dots> = map (net_record_of rs) (slot_order rs)"
    by (simp add: emit_slots_spec slot_order_def map_concat comp_def)
  finally show ?thesis .
qed

lemma computeNetStateDiff_eq:
  "computeNetStateDiff sds = Inr out \<Longrightarrow>
   out = map (net_record_of (raw_diffs sds)) (slot_order (raw_diffs sds))"
proof -
  assume h: "computeNetStateDiff sds = Inr out"
  then have "\<forall>sd \<in> set sds. length (raw sd) = 1"
    using computeNetStateDiff_Inr_iff by blast
  with h show ?thesis
    by (simp add: computeNetStateDiff_def merge_loop_all_single fold_accumulate emit_net_spec)
qed

lemma distinct_groups:
  "distinct xs \<Longrightarrow> (\<And>x. distinct (f x)) \<Longrightarrow> distinct (concat (map (\<lambda>x. map (Pair x) (f x)) xs))"
  by (induction xs) (auto simp: distinct_map inj_on_def)

lemma distinct_slot_order: "distinct (slot_order rs)"
  unfolding slot_order_def by (rule distinct_groups) simp_all

lemma in_slot_order:
  "(a, k) \<in> set (slot_order rs) \<longleftrightarrow> (\<exists>r \<in> set rs. Raw.address r = a \<and> Raw.key r = k)"
  unfolding slot_order_def on_address_def by auto

lemma set_slot_order: "set (slot_order rs) = slot_of ` set rs"
proof (rule set_eqI)
  fix p show "p \<in> set (slot_order rs) \<longleftrightarrow> p \<in> slot_of ` set rs"
    using in_slot_order [of "fst p" "snd p" rs] by (cases p) (auto simp: slot_of_def image_iff)
qed

lemma filter_eq_singleton: "distinct xs \<Longrightarrow> x \<in> set xs \<Longrightarrow> filter (\<lambda>y. y = x) xs = [x]"
  by (induction xs) (auto simp: filter_empty_conv)

lemma raw_net_record_of: "raw (net_record_of rs p) = [\<lparr>Raw.address = fst p, key = snd p,
   Raw.original = Raw.original (hd (on_slot (fst p) (snd p) rs)),
   Raw.dirty = Raw.dirty (last (on_slot (fst p) (snd p) rs))\<rparr>]"
  by (simp add: net_record_of_def net_record_def)

lemma records_for_map:
  "records_for a k (map (net_record_of rs) ps) = map (net_record_of rs) (filter (\<lambda>p. p = (a, k)) ps)"
  by (induction ps) (auto simp: records_for_def raw_net_record_of slot_of_def)

lemma records_for_output:
  assumes "computeNetStateDiff sds = Inr out" and "(a, k) \<in> slot_of ` set (raw_diffs sds)"
  shows "records_for a k out = [net_record_of (raw_diffs sds) (a, k)]"
proof -
  have "records_for a k out
          = map (net_record_of (raw_diffs sds)) (filter (\<lambda>p. p = (a, k)) (slot_order (raw_diffs sds)))"
    using computeNetStateDiff_eq [OF assms(1)] records_for_map by simp
  also have "filter (\<lambda>p. p = (a, k)) (slot_order (raw_diffs sds)) = [(a, k)]"
    using assms(2) by (intro filter_eq_singleton distinct_slot_order) (simp add: set_slot_order)
  finally show ?thesis by simp
qed

lemma example_run: "computeNetStateDiff example_input = Inr example_output"
  by code_simp

text \<open>
  C1: for every raw diff \<open>r\<close> of the input, the records of the output on the slot of \<open>r\<close> are
  one record, whose \<open>original\<close> is that of the first raw diff on the slot in input order
  and whose \<open>dirty\<close> is that of the last, whatever the values in between.
\<close>

theorem C1_first_original_last_dirty:
  assumes "computeNetStateDiff stateDiffs = Inr out"
    and "r \<in> set (raw_diffs stateDiffs)"
  shows "records_for (Raw.address r) (Raw.key r) out =
           [\<lparr>StateDiff.address = Raw.address r,
             raw = [\<lparr>Raw.address = Raw.address r, key = Raw.key r,
                     Raw.original =
                       Raw.original (hd (on_slot (Raw.address r) (Raw.key r) (raw_diffs stateDiffs))),
                     Raw.dirty =
                       Raw.dirty (last (on_slot (Raw.address r) (Raw.key r) (raw_diffs stateDiffs)))\<rparr>],
             soltype = None, StateDiff.original = None, StateDiff.dirty = None\<rparr>]"
proof -
  have "(Raw.address r, Raw.key r) \<in> slot_of ` set (raw_diffs stateDiffs)"
    using assms(2) by (auto simp: slot_of_def image_iff)
  from records_for_output [OF assms(1) this] show ?thesis
    by (simp add: net_record_of_def net_record_def)
qed

theorem C1_first_original_last_dirty_witness:
  "computeNetStateDiff example_input = Inr example_output
   \<and> \<lparr>Raw.address = Hex0x ''a1'', key = Hex0x ''k1'', Raw.original = Hex0x ''00'',
        Raw.dirty = Hex0x ''01''\<rparr> \<in> set (raw_diffs example_input)
   \<and> records_for (Hex0x ''a1'') (Hex0x ''k1'') example_output
        = [example_entry ''a1'' ''k1'' ''00'' ''06'']"
proof -
  let ?r = "\<lparr>Raw.address = Hex0x ''a1'', key = Hex0x ''k1'', Raw.original = Hex0x ''00'',
        Raw.dirty = Hex0x ''01''\<rparr>"
  have mem: "?r \<in> set (raw_diffs example_input)"
    by (simp add: raw_diffs_def example_input_def example_entry_def)
  have "on_slot (Hex0x ''a1'') (Hex0x ''k1'') (raw_diffs example_input)
          = [?r, \<lparr>Raw.address = Hex0x ''a1'', key = Hex0x ''k1'', Raw.original = Hex0x ''01'',
        Raw.dirty = Hex0x ''06''\<rparr>]"
    by (simp add: on_slot_def raw_diffs_def example_input_def example_entry_def)
  then show ?thesis
    using C1_first_original_last_dirty [OF example_run mem] example_run mem
    by (simp add: example_entry_def)
qed

lemma raw_diffs_map_net_record_of:
  "raw_diffs (map (net_record_of rs) ps) =
     map (\<lambda>p. \<lparr>Raw.address = fst p, key = snd p,
                Raw.original = Raw.original (hd (on_slot (fst p) (snd p) rs)),
                Raw.dirty = Raw.dirty (last (on_slot (fst p) (snd p) rs))\<rparr>) ps"
  by (induction ps) (simp_all add: raw_diffs_def raw_net_record_of)

lemma slots_of_output:
  "computeNetStateDiff sds = Inr out \<Longrightarrow> map slot_of (raw_diffs out) = slot_order (raw_diffs sds)"
  by (drule computeNetStateDiff_eq) (simp add: raw_diffs_map_net_record_of comp_def slot_of_def)

text \<open>
  C2: the slots of the output records, in output order, are the slots of the input in
  first-seen order grouped by address: the addresses in the order they are first seen in
  the input, and under each address its keys in the order they are first seen. The output
  is a function of the input, so the same input gives the same order.
\<close>

theorem C2_first_seen_order:
  assumes "computeNetStateDiff stateDiffs = Inr out"
  shows "map slot_of (raw_diffs out) = slot_order (raw_diffs stateDiffs)
         \<and> map StateDiff.address out = map fst (slot_order (raw_diffs stateDiffs))"
proof -
  have "map StateDiff.address out = map fst (slot_order (raw_diffs stateDiffs))"
    using computeNetStateDiff_eq [OF assms]
    by (simp add: comp_def net_record_of_def net_record_def)
  then show ?thesis
    using slots_of_output [OF assms] by simp
qed

theorem C2_first_seen_order_witness:
  "computeNetStateDiff example_input = Inr example_output
   \<and> map slot_of (raw_diffs example_output)
       = [(Hex0x ''a1'', Hex0x ''k1''), (Hex0x ''a1'', Hex0x ''k2''), (Hex0x ''a2'', Hex0x ''k3'')]
   \<and> slot_order (raw_diffs example_input)
       = [(Hex0x ''a1'', Hex0x ''k1''), (Hex0x ''a1'', Hex0x ''k2''), (Hex0x ''a2'', Hex0x ''k3'')]"
proof -
  have "map slot_of (raw_diffs example_output)
       = [(Hex0x ''a1'', Hex0x ''k1''), (Hex0x ''a1'', Hex0x ''k2''), (Hex0x ''a2'', Hex0x ''k3'')]"
    by (simp add: raw_diffs_def example_output_def example_entry_def slot_of_def)
  then show ?thesis
    using C2_first_seen_order [OF example_run] example_run by simp
qed

lemma records_for_any:
  assumes "computeNetStateDiff sds = Inr out"
  shows "records_for a k out =
           (if on_slot a k (raw_diffs sds) = [] then []
            else [net_record a k (Raw.original (hd (on_slot a k (raw_diffs sds))))
                    (Raw.dirty (last (on_slot a k (raw_diffs sds))))])"
proof (cases "on_slot a k (raw_diffs sds) = []")
  case True
  then have "(a, k) \<notin> set (slot_order (raw_diffs sds))"
    by (auto simp: in_slot_order on_slot_def filter_empty_conv)
  then have "filter (\<lambda>p. p = (a, k)) (slot_order (raw_diffs sds)) = []"
    by (auto simp: filter_empty_conv)
  then show ?thesis
    using True computeNetStateDiff_eq [OF assms] records_for_map by simp
next
  case False
  then have "(a, k) \<in> slot_of ` set (raw_diffs sds)"
    by (auto simp: on_slot_def filter_empty_conv slot_of_def image_iff)
  from records_for_output [OF assms this] False show ?thesis
    by (simp add: net_record_of_def)
qed

lemma length_raw_diffs_output:
  "computeNetStateDiff sds = Inr out \<Longrightarrow> length (raw_diffs out) = length out"
  by (drule computeNetStateDiff_eq) (simp add: raw_diffs_map_net_record_of)

lemma output_record_slot:
  assumes "computeNetStateDiff sds = Inr out" and "sd \<in> set out"
  shows "\<exists>r \<in> set (raw_diffs sds). records_for (Raw.address r) (Raw.key r) out = [sd]"
proof -
  from computeNetStateDiff_eq [OF assms(1)] assms(2)
  obtain p where p: "p \<in> set (slot_order (raw_diffs sds))" and sd: "sd = net_record_of (raw_diffs sds) p"
    by auto
  from p obtain r where r: "r \<in> set (raw_diffs sds)" and "slot_of r = p"
    by (auto simp: set_slot_order)
  then have "(Raw.address r, Raw.key r) \<in> slot_of ` set (raw_diffs sds)" and "p = (Raw.address r, Raw.key r)"
    by (auto simp: slot_of_def)
  with records_for_output [OF assms(1), of "Raw.address r" "Raw.key r"] sd
  have "records_for (Raw.address r) (Raw.key r) out = [sd]" by simp
  with r show ?thesis by blast
qed

text \<open>
  C3: the output has exactly one record for each slot of the input, and no other record:
  every slot of the input has one record, every record has one raw diff and is the
  record of a slot of the input, and the slots of the output are distinct. The records of
  a slot depend only on the raw diffs of the input on that slot, so two inputs that agree
  on a slot give the same record for it, whatever else they hold. A slot written from A
  to B and then from B to A has its record, with the values (A, A).
\<close>

theorem C3_one_record_per_slot:
  assumes "computeNetStateDiff stateDiffs = Inr out"
  shows "(\<forall>r \<in> set (raw_diffs stateDiffs).
            length (records_for (Raw.address r) (Raw.key r) out) = 1)
         \<and> (\<forall>sd \<in> set out. length (raw sd) = 1
               \<and> (\<exists>r \<in> set (raw_diffs stateDiffs).
                     records_for (Raw.address r) (Raw.key r) out = [sd]))
         \<and> distinct (map slot_of (raw_diffs out))
         \<and> set (map slot_of (raw_diffs out)) = set (map slot_of (raw_diffs stateDiffs))
         \<and> (\<forall>stateDiffs' out' a k.
               computeNetStateDiff stateDiffs' = Inr out'
               \<and> on_slot a k (raw_diffs stateDiffs') = on_slot a k (raw_diffs stateDiffs)
               \<longrightarrow> records_for a k out' = records_for a k out)
         \<and> (\<forall>a k r1 r2.
               on_slot a k (raw_diffs stateDiffs) = [r1, r2]
               \<and> Raw.original r2 = Raw.dirty r1 \<and> Raw.dirty r2 = Raw.original r1
               \<longrightarrow> records_for a k out = [net_record a k (Raw.original r1) (Raw.original r1)])"
proof (intro conjI allI impI ballI)
  fix r assume "r \<in> set (raw_diffs stateDiffs)"
  then have "(Raw.address r, Raw.key r) \<in> slot_of ` set (raw_diffs stateDiffs)"
    by (auto simp: slot_of_def image_iff)
  from records_for_output [OF assms this]
  show "length (records_for (Raw.address r) (Raw.key r) out) = 1" by simp
next
  fix sd assume sd: "sd \<in> set out"
  show "length (raw sd) = 1"
    using computeNetStateDiff_eq [OF assms] sd by (auto simp: raw_net_record_of)
  show "\<exists>r \<in> set (raw_diffs stateDiffs). records_for (Raw.address r) (Raw.key r) out = [sd]"
    by (rule output_record_slot [OF assms sd])
next
  show "distinct (map slot_of (raw_diffs out))"
    using slots_of_output [OF assms] distinct_slot_order by simp
  show "set (map slot_of (raw_diffs out)) = set (map slot_of (raw_diffs stateDiffs))"
    using slots_of_output [OF assms] set_slot_order by simp
next
  fix stateDiffs' out' a k
  assume "computeNetStateDiff stateDiffs' = Inr out'
            \<and> on_slot a k (raw_diffs stateDiffs') = on_slot a k (raw_diffs stateDiffs)"
  then show "records_for a k out' = records_for a k out"
    using records_for_any [of stateDiffs' out' a k] records_for_any [OF assms, of a k] by simp
next
  fix a k r1 r2
  assume "on_slot a k (raw_diffs stateDiffs) = [r1, r2]
            \<and> Raw.original r2 = Raw.dirty r1 \<and> Raw.dirty r2 = Raw.original r1"
  then show "records_for a k out = [net_record a k (Raw.original r1) (Raw.original r1)]"
    using records_for_any [OF assms, of a k] by simp
qed

lemma roundtrip_run:
  "computeNetStateDiff roundtrip_input = Inr [example_entry ''a1'' ''k1'' ''0a'' ''0a'']"
  by code_simp

theorem C3_one_record_per_slot_witness:
  "computeNetStateDiff roundtrip_input = Inr [example_entry ''a1'' ''k1'' ''0a'' ''0a'']
   \<and> on_slot (Hex0x ''a1'') (Hex0x ''k1'') (raw_diffs roundtrip_input)
       = [\<lparr>Raw.address = Hex0x ''a1'', key = Hex0x ''k1'', Raw.original = Hex0x ''0a'',
            Raw.dirty = Hex0x ''0b''\<rparr>,
          \<lparr>Raw.address = Hex0x ''a1'', key = Hex0x ''k1'', Raw.original = Hex0x ''0b'',
            Raw.dirty = Hex0x ''0a''\<rparr>]
   \<and> records_for (Hex0x ''a1'') (Hex0x ''k1'') [example_entry ''a1'' ''k1'' ''0a'' ''0a'']
       = [net_record (Hex0x ''a1'') (Hex0x ''k1'') (Hex0x ''0a'') (Hex0x ''0a'')]
   \<and> distinct (map slot_of (raw_diffs [example_entry ''a1'' ''k1'' ''0a'' ''0a'']))"
proof -
  have slot: "on_slot (Hex0x ''a1'') (Hex0x ''k1'') (raw_diffs roundtrip_input)
       = [\<lparr>Raw.address = Hex0x ''a1'', key = Hex0x ''k1'', Raw.original = Hex0x ''0a'',
            Raw.dirty = Hex0x ''0b''\<rparr>,
          \<lparr>Raw.address = Hex0x ''a1'', key = Hex0x ''k1'', Raw.original = Hex0x ''0b'',
            Raw.dirty = Hex0x ''0a''\<rparr>]"
    by (simp add: on_slot_def raw_diffs_def roundtrip_input_def example_entry_def)
  have rec: "records_for (Hex0x ''a1'') (Hex0x ''k1'') [example_entry ''a1'' ''k1'' ''0a'' ''0a'']
       = [net_record (Hex0x ''a1'') (Hex0x ''k1'') (Hex0x ''0a'') (Hex0x ''0a'')]"
    using C3_one_record_per_slot [OF roundtrip_run, THEN conjunct2, THEN conjunct2,
        THEN conjunct2, THEN conjunct2, THEN conjunct2, rule_format, of "Hex0x ''a1''"
        "Hex0x ''k1''"
        "\<lparr>Raw.address = Hex0x ''a1'', key = Hex0x ''k1'', Raw.original = Hex0x ''0a'',
          Raw.dirty = Hex0x ''0b''\<rparr>"
        "\<lparr>Raw.address = Hex0x ''a1'', key = Hex0x ''k1'', Raw.original = Hex0x ''0b'',
          Raw.dirty = Hex0x ''0a''\<rparr>"] slot
    by simp
  have "distinct (map slot_of (raw_diffs [example_entry ''a1'' ''k1'' ''0a'' ''0a'']))"
    by (simp add: raw_diffs_def example_entry_def)
  with rec slot roundtrip_run show ?thesis
    by (intro conjI)
qed

lemma merge_loop_find:
  "merge_loop sds net =
     (case find (\<lambda>sd. length (raw sd) \<noteq> 1) sds of
        Some sd \<Rightarrow> Inl (UnexpectedRawCount sd)
      | None \<Rightarrow> Inr (fold accumulate (raw_diffs sds) net))"
  by (induction sds arbitrary: net) (auto simp: raw_diffs_def split: option.splits)

text \<open>
  C4: computeNetStateDiff throws if and only if some entry of the input has a number of
  raw diffs other than one. When it throws it returns no list, and the error is the one
  of the first such entry.
\<close>

theorem C4_throws_iff_raw_count:
  "((\<exists>e. computeNetStateDiff stateDiffs = Inl e)
      \<longleftrightarrow> (\<exists>sd \<in> set stateDiffs. length (raw sd) \<noteq> 1))
   \<and> (\<forall>e. computeNetStateDiff stateDiffs = Inl e \<longrightarrow>
          (\<forall>out. computeNetStateDiff stateDiffs \<noteq> Inr out)
          \<and> (\<exists>sd. find (\<lambda>sd. length (raw sd) \<noteq> 1) stateDiffs = Some sd
                    \<and> e = UnexpectedRawCount sd))"
proof -
  have "(\<exists>sd. find (\<lambda>sd. length (raw sd) \<noteq> 1) stateDiffs = Some sd)
          \<longleftrightarrow> (\<exists>sd \<in> set stateDiffs. length (raw sd) \<noteq> 1)"
    using find_None_iff [of "\<lambda>sd. length (raw sd) \<noteq> 1" stateDiffs] by auto
  then show ?thesis
    by (auto simp: computeNetStateDiff_def merge_loop_find split: option.splits sum.splits)
qed

theorem C4_throws_iff_raw_count_witness:
  "empty_raw_entry \<in> set [example_entry ''a1'' ''k1'' ''00'' ''01'', empty_raw_entry]
   \<and> length (raw empty_raw_entry) \<noteq> 1
   \<and> (\<exists>e. computeNetStateDiff [example_entry ''a1'' ''k1'' ''00'' ''01'', empty_raw_entry] = Inl e)
   \<and> computeNetStateDiff [example_entry ''a1'' ''k1'' ''00'' ''01'', empty_raw_entry]
       = Inl (UnexpectedRawCount empty_raw_entry)"
proof -
  have "computeNetStateDiff [example_entry ''a1'' ''k1'' ''00'' ''01'', empty_raw_entry]
          = Inl (UnexpectedRawCount empty_raw_entry)"
    by (simp add: computeNetStateDiff_def example_entry_def empty_raw_entry_def)
  then show ?thesis
    using C4_throws_iff_raw_count [of "[example_entry ''a1'' ''k1'' ''00'' ''01'', empty_raw_entry]"]
    by (simp add: empty_raw_entry_def)
qed

lemma emit_shape:
  "sd \<in> set (emit net) \<Longrightarrow>
   \<exists>rw. raw sd = [rw] \<and> Raw.address rw = StateDiff.address sd \<and> soltype sd = None
        \<and> StateDiff.original sd = None \<and> StateDiff.dirty sd = None"
  by (auto simp: emit_def emit_slot_def)

text \<open>
  C8: every record of the output has one raw diff, whose address is the address of the
  record, and its three decoded fields are null.
\<close>

theorem C8_output_shape:
  assumes "computeNetStateDiff stateDiffs = Inr out" and "sd \<in> set out"
  shows "\<exists>rw. raw sd = [rw] \<and> Raw.address rw = StateDiff.address sd \<and> soltype sd = None
             \<and> StateDiff.original sd = None \<and> StateDiff.dirty sd = None"
  using assms by (auto simp: computeNetStateDiff_def split: sum.splits dest: emit_shape)


theorem C8_output_shape_witness:
  "computeNetStateDiff example_input = Inr example_output
   \<and> example_entry ''a1'' ''k1'' ''00'' ''06'' \<in> set example_output
   \<and> (\<exists>rw. raw (example_entry ''a1'' ''k1'' ''00'' ''06'') = [rw]
          \<and> Raw.address rw = StateDiff.address (example_entry ''a1'' ''k1'' ''00'' ''06'')
          \<and> soltype (example_entry ''a1'' ''k1'' ''00'' ''06'') = None
          \<and> StateDiff.original (example_entry ''a1'' ''k1'' ''00'' ''06'') = None
          \<and> StateDiff.dirty (example_entry ''a1'' ''k1'' ''00'' ''06'') = None)"
proof -
  have mem: "example_entry ''a1'' ''k1'' ''00'' ''06'' \<in> set example_output"
    by (simp add: example_output_def)
  from C8_output_shape [OF example_run mem] example_run mem show ?thesis
    by simp
qed

section \<open>Idempotence\<close>

lemma first_seen_distinct: "distinct xs \<Longrightarrow> first_seen xs = xs"
  by (induction xs) (auto simp: filter_id_conv)

lemma first_seen_block:
  "ks \<noteq> [] \<Longrightarrow> a \<notin> set ys \<Longrightarrow> first_seen (map (\<lambda>k. a) ks @ ys) = a # first_seen ys"
proof (induction ks)
  case Nil
  then show ?case by simp
next
  case (Cons k ks)
  then show ?case by (cases ks) (auto simp: filter_id_conv)
qed

lemma first_seen_groups:
  "distinct xs \<Longrightarrow> \<forall>x \<in> set xs. f x \<noteq> [] \<Longrightarrow>
   first_seen (map fst (concat (map (\<lambda>x. map (Pair x) (f x)) xs))) = xs"
proof (induction xs)
  case Nil
  then show ?case by simp
next
  case (Cons x xs)
  have "x \<notin> set (map fst (concat (map (\<lambda>x. map (Pair x) (f x)) xs)))"
    using Cons.prems(1) by auto
  then show ?case
    using Cons by (simp add: comp_def first_seen_block)
qed

lemma filter_groups:
  "distinct xs \<Longrightarrow> x \<in> set xs \<Longrightarrow>
   filter (\<lambda>p. fst p = x) (concat (map (\<lambda>x. map (Pair x) (f x)) xs)) = map (Pair x) (f x)"
proof (induction xs)
  case Nil
  then show ?case by simp
next
  case (Cons y ys)
  have none: "filter (\<lambda>p. fst p = x) (concat (map (\<lambda>x. map (Pair x) (f x)) ys)) = []" if "x \<notin> set ys"
    using that by (auto simp: filter_empty_conv)
  show ?case
  proof (cases "x = y")
    case True
    then show ?thesis using Cons.prems none by (simp add: filter_map comp_def)
  next
    case False
    then have "filter (\<lambda>p. fst p = x) (map (Pair y) (f y)) = []"
      by (auto simp: filter_empty_conv)
    then show ?thesis using False Cons by simp
  qed
qed

lemma raw_diffs_output:
  "computeNetStateDiff sds = Inr out \<Longrightarrow>
   raw_diffs out = map (net_raw_of (raw_diffs sds)) (slot_order (raw_diffs sds))"
  by (drule computeNetStateDiff_eq) (simp add: raw_diffs_map_net_record_of net_raw_of_def)

lemma keys_nonempty:
  "a \<in> set (first_seen (map Raw.address rs)) \<Longrightarrow> first_seen (map Raw.key (on_address a rs)) \<noteq> []"
proof -
  assume "a \<in> set (first_seen (map Raw.address rs))"
  then have "on_address a rs \<noteq> []"
    by (auto simp: on_address_def filter_empty_conv)
  then have "set (first_seen (map Raw.key (on_address a rs))) \<noteq> {}"
    by simp
  then show ?thesis by fastforce
qed

lemma address_net_raw_of [simp]: "Raw.address (net_raw_of rs p) = fst p"
  by (simp add: net_raw_of_def)

lemma key_net_raw_of [simp]: "Raw.key (net_raw_of rs p) = snd p"
  by (simp add: net_raw_of_def)

lemma addresses_net_raws:
  "first_seen (map Raw.address (map (net_raw_of rs) (slot_order rs))) = first_seen (map Raw.address rs)"
proof -
  have "map Raw.address (map (net_raw_of rs) (slot_order rs)) = map fst (slot_order rs)"
    by (simp add: comp_def)
  moreover have "first_seen (map fst (slot_order rs)) = first_seen (map Raw.address rs)"
    unfolding slot_order_def
    by (rule first_seen_groups) (simp_all add: keys_nonempty)
  ultimately show ?thesis by (simp only:)
qed

lemma keys_net_raws:
  assumes "a \<in> set (first_seen (map Raw.address rs))"
  shows "map Raw.key (on_address a (map (net_raw_of rs) (slot_order rs)))
           = first_seen (map Raw.key (on_address a rs))"
proof -
  have "on_address a (map (net_raw_of rs) (slot_order rs))
          = map (net_raw_of rs) (filter (\<lambda>p. fst p = a) (slot_order rs))"
    by (simp add: on_address_def filter_map comp_def)
  also have "filter (\<lambda>p. fst p = a) (slot_order rs)
               = map (Pair a) (first_seen (map Raw.key (on_address a rs)))"
    unfolding slot_order_def using assms by (intro filter_groups) simp_all
  finally have "on_address a (map (net_raw_of rs) (slot_order rs))
          = map (net_raw_of rs) (map (Pair a) (first_seen (map Raw.key (on_address a rs))))" .
  then show ?thesis
    by (simp add: comp_def)
qed

lemma on_slot_net_raws:
  assumes "(a, k) \<in> set (slot_order rs)"
  shows "on_slot a k (map (net_raw_of rs) (slot_order rs)) = [net_raw_of rs (a, k)]"
proof -
  have "on_slot a k (map (net_raw_of rs) (slot_order rs))
          = map (net_raw_of rs) (filter (\<lambda>p. p = (a, k)) (slot_order rs))"
    by (simp add: on_slot_def filter_map comp_def prod_eq_iff)
  also have "filter (\<lambda>p. p = (a, k)) (slot_order rs) = [(a, k)]"
    using assms by (intro filter_eq_singleton distinct_slot_order)
  finally show ?thesis by simp
qed

lemma net_values_net_raws:
  "(a, k) \<in> set (slot_order rs) \<Longrightarrow>
   net_values a k (map (net_raw_of rs) (slot_order rs)) = net_values a k rs"
  by (simp add: net_values_def on_slot_net_raws net_raw_of_def)

lemma slots_spec_net_raws:
  assumes "a \<in> set (first_seen (map Raw.address rs))"
  shows "slots_spec a (map (net_raw_of rs) (slot_order rs)) = slots_spec a rs"
proof -
  let ?ks = "first_seen (map Raw.key (on_address a rs))"
  have in_order: "(a, k) \<in> set (slot_order rs)" if "k \<in> set ?ks" for k
    using that assms by (auto simp: slot_order_def)
  have "slots_spec a (map (net_raw_of rs) (slot_order rs))
          = map (\<lambda>k. (js_of k, net_values a k (map (net_raw_of rs) (slot_order rs)))) ?ks"
    by (simp add: slots_spec_def keys_net_raws [OF assms] first_seen_distinct)
  also have "\<dots> = map (\<lambda>k. (js_of k, net_values a k rs)) ?ks"
    by (rule map_cong) (simp_all add: in_order net_values_net_raws)
  finally show ?thesis by (simp add: slots_spec_def)
qed

lemma net_spec_net_raws: "net_spec (map (net_raw_of rs) (slot_order rs)) = net_spec rs"
proof -
  have "net_spec (map (net_raw_of rs) (slot_order rs))
          = map (\<lambda>a. (js_of a, slots_spec a (map (net_raw_of rs) (slot_order rs))))
              (first_seen (map Raw.address rs))"
    unfolding net_spec_def addresses_net_raws ..
  also have "\<dots> = map (\<lambda>a. (js_of a, slots_spec a rs)) (first_seen (map Raw.address rs))"
    by (rule map_cong) (simp_all add: slots_spec_net_raws)
  finally show ?thesis by (simp add: net_spec_def)
qed

text \<open>
  C7: computeNetStateDiff is idempotent: applied to an output of its own it returns that
  output, the same records in the same order.
\<close>

theorem C7_idempotent:
  assumes "computeNetStateDiff stateDiffs = Inr out"
  shows "computeNetStateDiff out = Inr out"
proof -
  let ?rs = "raw_diffs stateDiffs"
  have single: "\<forall>sd \<in> set out. length (raw sd) = 1"
    using computeNetStateDiff_eq [OF assms] by (auto simp: raw_net_record_of)
  have "computeNetStateDiff out = Inr (emit (net_spec (raw_diffs out)))"
    using single by (simp add: computeNetStateDiff_def merge_loop_all_single fold_accumulate)
  also have "net_spec (raw_diffs out) = net_spec ?rs"
    using raw_diffs_output [OF assms] net_spec_net_raws by simp
  also have "emit (net_spec ?rs) = out"
    using computeNetStateDiff_eq [OF assms] emit_net_spec by simp
  finally show ?thesis .
qed


theorem C7_idempotent_witness:
  "computeNetStateDiff example_input = Inr example_output
   \<and> computeNetStateDiff example_output = Inr example_output"
  using C7_idempotent [OF example_run] example_run by simp


section \<open>The validation of the order\<close>

lemma validate_order_Inl_iff:
  "1 \<le> i \<Longrightarrow>
   (\<exists>e. validate_order i txData = Inl e) \<longleftrightarrow>
   (\<exists>j. i \<le> j \<and> j < length txData \<and> blockNumber (txData ! j) < blockNumber (txData ! (j - 1)))"
proof (induction i txData rule: validate_order.induct)
  case (1 i txData)
  show ?case
  proof (cases "i < length txData")
    case False
    then show ?thesis by (subst validate_order.simps) auto
  next
    case True
    show ?thesis
    proof (cases "blockNumber (txData ! i) < blockNumber (txData ! (i - 1))")
      case True
      with \<open>i < length txData\<close> show ?thesis
        by (subst validate_order.simps) auto
    next
      case False
      have "(\<exists>e. validate_order i txData = Inl e) \<longleftrightarrow> (\<exists>e. validate_order (i + 1) txData = Inl e)"
        using False True by (subst validate_order.simps) simp
      also have "\<dots> \<longleftrightarrow> (\<exists>j. i + 1 \<le> j \<and> j < length txData
                              \<and> blockNumber (txData ! j) < blockNumber (txData ! (j - 1)))"
        using "1.IH" [OF True False] by simp
      also have "\<dots> \<longleftrightarrow> (\<exists>j. i \<le> j \<and> j < length txData
                              \<and> blockNumber (txData ! j) < blockNumber (txData ! (j - 1)))"
        using False by (metis Suc_eq_plus1 Suc_leI le_neq_implies_less Suc_leD)
      finally show ?thesis .
    qed
  qed
qed

lemma validate_order_cases:
  "validate_order i txData = Inr () \<or> (\<exists>e. validate_order i txData = Inl e)"
  by (cases "validate_order i txData") auto

text \<open>
  C5: the validation of the list of transaction results fails if and only if the block
  number of some result is less than the block number of the result before it; a list in
  which no block number is less than the one before, equal ones included, passes.
\<close>

theorem C5_validation_fails_iff_decrease:
  "((\<exists>e. validate_order 1 txData = Inl e) \<longleftrightarrow>
      (\<exists>i. 1 \<le> i \<and> i < length txData
           \<and> blockNumber (txData ! i) < blockNumber (txData ! (i - 1))))
   \<and> ((\<forall>i. 1 \<le> i \<and> i < length txData
           \<longrightarrow> blockNumber (txData ! (i - 1)) \<le> blockNumber (txData ! i))
        \<longrightarrow> validate_order 1 txData = Inr ())"
proof -
  have iff: "(\<exists>e. validate_order 1 txData = Inl e) \<longleftrightarrow>
      (\<exists>i. 1 \<le> i \<and> i < length txData
           \<and> blockNumber (txData ! i) < blockNumber (txData ! (i - 1)))"
    by (rule validate_order_Inl_iff) simp
  moreover have "validate_order 1 txData = Inr ()"
    if "\<forall>i. 1 \<le> i \<and> i < length txData
           \<longrightarrow> blockNumber (txData ! (i - 1)) \<le> blockNumber (txData ! i)"
  proof -
    have "\<not> (\<exists>e. validate_order 1 txData = Inl e)"
      unfolding iff using that by (auto simp: not_less)
    then show ?thesis using validate_order_cases [of 1 txData] by blast
  qed
  ultimately show ?thesis by blast
qed


theorem C5_validation_fails_iff_decrease_witness:
  "(1::nat) \<le> 2 \<and> 2 < length [tx_at 5, tx_at 7, tx_at 6]
   \<and> blockNumber ([tx_at 5, tx_at 7, tx_at 6] ! 2) < blockNumber ([tx_at 5, tx_at 7, tx_at 6] ! (2 - 1))
   \<and> (\<exists>e. validate_order 1 [tx_at 5, tx_at 7, tx_at 6] = Inl e)
   \<and> validate_order 1 [tx_at 5, tx_at 5, tx_at 6] = Inr ()"
proof -
  have a: "(1::nat) \<le> 2 \<and> 2 < length [tx_at 5, tx_at 7, tx_at 6]
   \<and> blockNumber ([tx_at 5, tx_at 7, tx_at 6] ! 2) < blockNumber ([tx_at 5, tx_at 7, tx_at 6] ! (2 - 1))"
    by (simp add: tx_at_def)
  then have "\<exists>e. validate_order 1 [tx_at 5, tx_at 7, tx_at 6] = Inl e"
    using C5_validation_fails_iff_decrease [of "[tx_at 5, tx_at 7, tx_at 6]"] by blast
  moreover have "validate_order 1 [tx_at 5, tx_at 5, tx_at 6] = Inr ()"
    by code_simp
  ultimately show ?thesis using a by blast
qed


section \<open>The run of main\<close>

lemma validate_order_sorted:
  "validate_order 1 txData = Inr () \<longleftrightarrow> sorted (map blockNumber txData)"
proof -
  have a: "validate_order 1 txData = Inr () \<longleftrightarrow> \<not> (\<exists>e. validate_order 1 txData = Inl e)"
    using validate_order_cases [of 1 txData] by auto
  have b: "(\<exists>e. validate_order 1 txData = Inl e) \<longleftrightarrow>
      (\<exists>j. 1 \<le> j \<and> j < length txData \<and> blockNumber (txData ! j) < blockNumber (txData ! (j - 1)))"
    by (rule validate_order_Inl_iff) simp
  have c: "(\<exists>j. 1 \<le> j \<and> j < length txData \<and> blockNumber (txData ! j) < blockNumber (txData ! (j - 1)))
         \<longleftrightarrow> \<not> sorted (map blockNumber txData)"
  proof
    assume "\<exists>j. 1 \<le> j \<and> j < length txData \<and> blockNumber (txData ! j) < blockNumber (txData ! (j - 1))"
    then obtain j where j: "1 \<le> j" "j < length txData"
      "blockNumber (txData ! j) < blockNumber (txData ! (j - 1))" by blast
    then have "Suc (j - 1) < length (map blockNumber txData)"
      and "\<not> map blockNumber txData ! (j - 1) \<le> map blockNumber txData ! Suc (j - 1)"
      by simp_all
    then show "\<not> sorted (map blockNumber txData)"
      unfolding sorted_iff_nth_Suc by blast
  next
    assume "\<not> sorted (map blockNumber txData)"
    then obtain i where i: "Suc i < length (map blockNumber txData)"
      "\<not> map blockNumber txData ! i \<le> map blockNumber txData ! Suc i"
      unfolding sorted_iff_nth_Suc by blast
    then have "1 \<le> Suc i \<and> Suc i < length txData
                 \<and> blockNumber (txData ! Suc i) < blockNumber (txData ! (Suc i - 1))"
      by simp
    then show "\<exists>j. 1 \<le> j \<and> j < length txData
                 \<and> blockNumber (txData ! j) < blockNumber (txData ! (j - 1))"
      by blast
  qed
  from a b c show ?thesis by blast
qed

lemma tokens_of_Cons:
  "tokens_of (l # ls) =
     (if is_comment l then tokens_of ls else takeWhile (\<lambda>c. c \<noteq> CHR '' '') l # tokens_of ls)"
  by (simp add: tokens_of_def)

lemma split_first: "\<exists>ps. split c s = takeWhile (\<lambda>x. x \<noteq> c) s # ps"
  by (induction s) auto

lemma resolve_lines_calls:
  "resolve_lines g ls txData (w, tr) = (res, (w', tr')) \<Longrightarrow>
   (\<exists>n. tr' = tr @ map GetStateDiff (take n (tokens_of ls)))
   \<and> ((\<exists>tx. res = Inr tx) \<longrightarrow> tr' = tr @ map GetStateDiff (tokens_of ls))"
proof (induction ls arbitrary: txData w tr)
  case Nil
  then show ?case by (auto simp: tokens_of_def)
next
  case (Cons l ls)
  show ?case
  proof (cases "is_comment l")
    case True
    then have "resolve_lines g ls txData (w, tr) = (res, (w', tr'))"
      using Cons.prems by (simp add: is_comment_def)
    from Cons.IH [OF this] True show ?thesis by (simp add: tokens_of_Cons)
  next
    case False
    let ?t = "takeWhile (\<lambda>c. c \<noteq> CHR '' '') l"
    obtain ps where sp: "split CHR '' '' l = ?t # ps"
      using split_first by blast
    obtain r w1 where g: "g ?t w = (r, w1)" by (cases "g ?t w")
    have toks: "tokens_of (l # ls) = ?t # tokens_of ls"
      using False by (simp add: tokens_of_Cons)
    show ?thesis
    proof (cases r)
      case (Inl e)
      then have res: "res = Inl e" and "tr' = tr @ [GetStateDiff ?t]"
        using Cons.prems False sp g by (simp_all add: is_comment_def)
      then have "tr' = tr @ map GetStateDiff (take 1 (tokens_of (l # ls)))"
        unfolding toks by simp
      then show ?thesis using res by blast
    next
      case (Inr sim)
      then have "resolve_lines g ls (txData @ [sim]) (w1, tr @ [GetStateDiff ?t]) = (res, (w', tr'))"
        using Cons.prems False sp g by (simp add: is_comment_def)
      from Cons.IH [OF this] obtain n where
        n: "tr' = (tr @ [GetStateDiff ?t]) @ map GetStateDiff (take n (tokens_of ls))"
        and all: "(\<exists>tx. res = Inr tx) \<longrightarrow>
                    tr' = (tr @ [GetStateDiff ?t]) @ map GetStateDiff (tokens_of ls)"
        by blast
      from n have "tr' = tr @ map GetStateDiff (take (Suc n) (tokens_of (l # ls)))"
        unfolding toks by simp
      moreover from all have "(\<exists>tx. res = Inr tx) \<longrightarrow>
                    tr' = tr @ map GetStateDiff (tokens_of (l # ls))"
        unfolding toks by simp
      ultimately show ?thesis by blast
    qed
  qed
qed

lemma requested_map [simp]: "requested (map GetStateDiff ts) = ts"
  by (induction ts) (simp_all add: requested_def)

lemma requested_append [simp]: "requested (xs @ ys) = requested xs @ requested ys"
  by (simp add: requested_def)

lemma entries_lines_of: "entries fileContent = tokens_of (lines_of fileContent)"
  by (simp add: entries_def lines_of_def tokens_of_def conj_commute)


lemma no_compute_in_resolve:
  "resolve_lines g ls txData (w, []) = (res, (w', tr)) \<Longrightarrow> ComputeNetStateDiff sds \<notin> set tr"
  by (drule resolve_lines_calls) auto

lemma main_resolved:
  assumes "filePath \<noteq> []" and "readFile filePath w = (Inr fileContent, w1)"
    and "resolve_lines (getStateDiff fetchTrace readSimulation) (lines_of fileContent) [] (w1, [])
           = (Inr txData, (w2, tr))"
  shows "main fetchTrace readSimulation readFile writeOutput (Some filePath) w =
           (case validate_order 1 txData of
              Inl e \<Rightarrow> (Inl e, (w2, tr))
            | Inr u \<Rightarrow>
                (case computeNetStateDiff (concat (map stateDiff txData)) of
                   Inl e \<Rightarrow> (Inl e, (w2, tr @ [ComputeNetStateDiff (concat (map stateDiff txData))]))
                 | Inr netStateDiff \<Rightarrow>
                     (case writeOutput filePath netStateDiff w2 of
                        (r, w3) \<Rightarrow>
                          (r, (w3, (tr @ [ComputeNetStateDiff (concat (map stateDiff txData))])
                                   @ [WriteOutput filePath netStateDiff])))))"
  using assms by (simp add: main_def Let_def split: sum.splits prod.splits)

lemma main_compute_call:
  assumes run: "main fetchTrace readSimulation readFile writeOutput argv2 w = (res, (w', tr'))"
    and call: "ComputeNetStateDiff sds \<in> set tr'"
  shows "\<exists>filePath fileContent w1 txData w2 tr.
           argv2 = Some filePath \<and> readFile filePath w = (Inr fileContent, w1)
           \<and> resolve_lines (getStateDiff fetchTrace readSimulation) (lines_of fileContent) []
                 (w1, []) = (Inr txData, (w2, tr))
           \<and> sorted (map blockNumber txData) \<and> sds = concat (map stateDiff txData)"
proof (cases argv2)
  case None
  with run call show ?thesis by (simp add: main_def)
next
  case (Some filePath)
  show ?thesis
  proof (cases "filePath = []")
    case True
    with Some run call show ?thesis by (simp add: main_def)
  next
    case nonempty: False
    obtain r1 w1 where rf: "readFile filePath w = (r1, w1)" by (cases "readFile filePath w")
    show ?thesis
    proof (cases r1)
      case (Inl e)
      with Some nonempty rf run call show ?thesis by (simp add: main_def)
    next
      case (Inr fileContent)
      obtain r2 w2 tr where rl:
        "resolve_lines (getStateDiff fetchTrace readSimulation) (lines_of fileContent) [] (w1, [])
           = (r2, (w2, tr))"
        by (cases "resolve_lines (getStateDiff fetchTrace readSimulation) (lines_of fileContent) []
              (w1, [])") auto
      have notin: "ComputeNetStateDiff sds \<notin> set tr"
        using no_compute_in_resolve [OF rl] .
      show ?thesis
      proof (cases r2)
        case (Inl e)
        with Some nonempty rf Inr rl run have "tr' = tr" by (simp add: main_def)
        with notin call show ?thesis by simp
      next
        case txs: (Inr txData)
        have m: "main fetchTrace readSimulation readFile writeOutput (Some filePath) w =
           (case validate_order 1 txData of
              Inl e \<Rightarrow> (Inl e, (w2, tr))
            | Inr u \<Rightarrow>
                (case computeNetStateDiff (concat (map stateDiff txData)) of
                   Inl e \<Rightarrow> (Inl e, (w2, tr @ [ComputeNetStateDiff (concat (map stateDiff txData))]))
                 | Inr netStateDiff \<Rightarrow>
                     (case writeOutput filePath netStateDiff w2 of
                        (r, w3) \<Rightarrow>
                          (r, (w3, (tr @ [ComputeNetStateDiff (concat (map stateDiff txData))])
                                   @ [WriteOutput filePath netStateDiff])))))"
          using nonempty rf Inr rl txs by (intro main_resolved) simp_all
        show ?thesis
        proof (cases "validate_order 1 txData")
          case (Inl e)
          with m run Some have "tr' = tr" by simp
          with notin call show ?thesis by simp
        next
          case ok: (Inr u)
          then have srt: "sorted (map blockNumber txData)"
            using validate_order_sorted [of txData] by simp
          have "sds = concat (map stateDiff txData)"
          proof (cases "computeNetStateDiff (concat (map stateDiff txData))")
            case (Inl e)
            with m run Some ok have "tr' = tr @ [ComputeNetStateDiff (concat (map stateDiff txData))]"
              by simp
            with notin call show ?thesis by simp
          next
            case net: (Inr netStateDiff)
            obtain r w3 where "writeOutput filePath netStateDiff w2 = (r, w3)"
              by (cases "writeOutput filePath netStateDiff w2")
            with m run Some ok net
            have "tr' = (tr @ [ComputeNetStateDiff (concat (map stateDiff txData))])
                          @ [WriteOutput filePath netStateDiff]"
              by simp
            with notin call show ?thesis by simp
          qed
          with srt Some rf Inr rl txs show ?thesis by blast
        qed
      qed
    qed
  qed
qed

lemma validate_5_7_6:
  assumes "map blockNumber txData = [5, 7, 6]"
  shows "validate_order 1 txData = Inl (NotOrdered 7 6)"
proof -
  from assms obtain t0 t1 t2 where tx: "txData = [t0, t1, t2]"
    and bn: "blockNumber t0 = 5" "blockNumber t1 = 7" "blockNumber t2 = 6"
    by (auto simp: map_eq_Cons_conv)
  have "validate_order 1 txData = validate_order (1 + 1) txData"
    using tx bn by (subst validate_order.simps) simp
  also have "\<dots> = Inl (NotOrdered 7 6)"
    using tx bn by (subst validate_order.simps) simp
  finally show ?thesis .
qed

lemma validate_order_error:
  "validate_order i txData = Inl e \<Longrightarrow> \<exists>b1 b2. e = NotOrdered b1 b2 \<and> b2 < b1"
proof (induction i txData rule: validate_order.induct)
  case (1 i txData)
  show ?case
  proof (cases "i < length txData")
    case False
    with "1.prems" show ?thesis by (subst (asm) validate_order.simps) simp
  next
    case True
    show ?thesis
    proof (cases "blockNumber (txData ! i) < blockNumber (txData ! (i - 1))")
      case dec: True
      with True "1.prems" show ?thesis by (subst (asm) validate_order.simps) auto
    next
      case False
      with True "1.prems" have "validate_order (i + 1) txData = Inl e"
        by (subst (asm) validate_order.simps) simp
      from "1.IH" [OF True False this] show ?thesis .
    qed
  qed
qed

lemma main_unordered:
  assumes "filePath \<noteq> []" and "readFile filePath w = (Inr fileContent, w1)"
    and "resolve_lines (getStateDiff fetchTrace readSimulation) (lines_of fileContent) [] (w1, [])
           = (Inr txData, (w2, tr))"
    and "\<not> sorted (map blockNumber txData)"
  shows "\<exists>b1 b2. b2 < b1
           \<and> main fetchTrace readSimulation readFile writeOutput (Some filePath) w
               = (Inl (NotOrdered b1 b2), (w2, tr))"
proof -
  from assms(4) obtain e where e: "validate_order 1 txData = Inl e"
    using validate_order_sorted [of txData] validate_order_cases [of 1 txData] by blast
  from validate_order_error [OF e] obtain b1 b2 where "e = NotOrdered b1 b2" and lt: "b2 < b1"
    by blast
  with e main_resolved [of filePath readFile w fileContent w1 fetchTrace readSimulation txData
      w2 tr writeOutput] assms(1-3)
  have "main fetchTrace readSimulation readFile writeOutput (Some filePath) w
          = (Inl (NotOrdered b1 b2), (w2, tr))"
    by simp
  with lt show ?thesis by blast
qed

text \<open>
  C6: whenever a run of main calls computeNetStateDiff, its argument is the state diffs,
  in order, of the transactions that were resolved, and their block numbers do not
  decrease. When the resolved block numbers are out of order, as 5, 7, 6 are, the run
  ends with the error of the validation and computeNetStateDiff has not been called.
\<close>

theorem C6_validation_before_merge:
  "(main fetchTrace readSimulation readFile writeOutput argv2 w = (res, (w', tr'))
      \<and> ComputeNetStateDiff sds \<in> set tr'
    \<longrightarrow> (\<exists>filePath fileContent w1 txData w2 tr.
           argv2 = Some filePath \<and> readFile filePath w = (Inr fileContent, w1)
           \<and> resolve_lines (getStateDiff fetchTrace readSimulation) (lines_of fileContent) []
                 (w1, []) = (Inr txData, (w2, tr))
           \<and> sorted (map blockNumber txData) \<and> sds = concat (map stateDiff txData)))
   \<and> (filePath \<noteq> [] \<and> readFile filePath w = (Inr fileContent, w1)
        \<and> resolve_lines (getStateDiff fetchTrace readSimulation) (lines_of fileContent) []
              (w1, []) = (Inr txData, (w2, tr))
        \<and> \<not> sorted (map blockNumber txData)
      \<longrightarrow> (\<exists>b1 b2. b2 < b1
             \<and> main fetchTrace readSimulation readFile writeOutput (Some filePath) w
                 = (Inl (NotOrdered b1 b2), (w2, tr)))
          \<and> (\<forall>sds. ComputeNetStateDiff sds \<notin> set tr))
   \<and> (filePath \<noteq> [] \<and> readFile filePath w = (Inr fileContent, w1)
        \<and> resolve_lines (getStateDiff fetchTrace readSimulation) (lines_of fileContent) []
              (w1, []) = (Inr txData, (w2, tr))
        \<and> map blockNumber txData = [5, 7, 6]
      \<longrightarrow> main fetchTrace readSimulation readFile writeOutput (Some filePath) w
            = (Inl (NotOrdered 7 6), (w2, tr))
          \<and> (\<forall>sds. ComputeNetStateDiff sds \<notin> set tr))"
proof (intro conjI impI)
  assume "main fetchTrace readSimulation readFile writeOutput argv2 w = (res, (w', tr'))
            \<and> ComputeNetStateDiff sds \<in> set tr'"
  then have run: "main fetchTrace readSimulation readFile writeOutput argv2 w = (res, (w', tr'))"
    and call: "ComputeNetStateDiff sds \<in> set tr'"
    by simp_all
  show "\<exists>filePath fileContent w1 txData w2 tr.
           argv2 = Some filePath \<and> readFile filePath w = (Inr fileContent, w1)
           \<and> resolve_lines (getStateDiff fetchTrace readSimulation) (lines_of fileContent) []
                 (w1, []) = (Inr txData, (w2, tr))
           \<and> sorted (map blockNumber txData) \<and> sds = concat (map stateDiff txData)"
    by (rule main_compute_call [OF run call])
next
  assume h: "filePath \<noteq> [] \<and> readFile filePath w = (Inr fileContent, w1)
        \<and> resolve_lines (getStateDiff fetchTrace readSimulation) (lines_of fileContent) []
              (w1, []) = (Inr txData, (w2, tr))
        \<and> \<not> sorted (map blockNumber txData)"
  then have ne: "filePath \<noteq> []" and rf: "readFile filePath w = (Inr fileContent, w1)"
    and rl: "resolve_lines (getStateDiff fetchTrace readSimulation) (lines_of fileContent) []
              (w1, []) = (Inr txData, (w2, tr))"
    and ns: "\<not> sorted (map blockNumber txData)"
    by simp_all
  show "\<exists>b1 b2. b2 < b1
             \<and> main fetchTrace readSimulation readFile writeOutput (Some filePath) w
                 = (Inl (NotOrdered b1 b2), (w2, tr))"
    by (rule main_unordered [of filePath readFile w fileContent w1 fetchTrace readSimulation
          txData w2 tr writeOutput, OF ne rf rl ns])
  show "\<forall>sds. ComputeNetStateDiff sds \<notin> set tr"
    using rl by (simp add: no_compute_in_resolve)
next
  assume h: "filePath \<noteq> [] \<and> readFile filePath w = (Inr fileContent, w1)
        \<and> resolve_lines (getStateDiff fetchTrace readSimulation) (lines_of fileContent) []
              (w1, []) = (Inr txData, (w2, tr))
        \<and> map blockNumber txData = [5, 7, 6]"
  then show "main fetchTrace readSimulation readFile writeOutput (Some filePath) w
            = (Inl (NotOrdered 7 6), (w2, tr))"
    using main_resolved [of filePath readFile w fileContent w1 fetchTrace readSimulation txData w2 tr
        writeOutput] validate_5_7_6 [of txData]
    by simp
  from h have "resolve_lines (getStateDiff fetchTrace readSimulation) (lines_of fileContent) []
              (w1, []) = (Inr txData, (w2, tr))"
    by simp
  then show "\<forall>sds. ComputeNetStateDiff sds \<notin> set tr"
    by (simp add: no_compute_in_resolve)
qed

lemma sample_main_list_file:
  "sample_main list_file =
     (Inr (), ((), [GetStateDiff ''0x567'', GetStateDiff ''./sim.json'', ComputeNetStateDiff [],
                    WriteOutput ''list.txt'' []]))"
  by code_simp

lemma resolve_unordered_file:
  "resolve_lines (getStateDiff sample_source sample_source) (lines_of unordered_file) [] ((), [])
     = (Inr [tx_at 5, tx_at 7, tx_at 6],
        ((), [GetStateDiff ''0x567'', GetStateDiff ''0x56789'', GetStateDiff ''0x5678'']))"
  by code_simp

theorem C6_validation_before_merge_witness:
  "sample_readFile unordered_file ''list.txt'' () = (Inr unordered_file, ())
   \<and> resolve_lines (getStateDiff sample_source sample_source) (lines_of unordered_file) [] ((), [])
     = (Inr [tx_at 5, tx_at 7, tx_at 6],
        ((), [GetStateDiff ''0x567'', GetStateDiff ''0x56789'', GetStateDiff ''0x5678'']))
   \<and> map blockNumber [tx_at 5, tx_at 7, tx_at 6] = [5, 7, 6]
   \<and> main sample_source sample_source (sample_readFile unordered_file) sample_writeOutput
         (Some ''list.txt'') ()
       = (Inl (NotOrdered 7 6),
          ((), [GetStateDiff ''0x567'', GetStateDiff ''0x56789'', GetStateDiff ''0x5678'']))
   \<and> main sample_source sample_source (sample_readFile list_file) sample_writeOutput
         (Some ''list.txt'') ()
       = (Inr (), ((), [GetStateDiff ''0x567'', GetStateDiff ''./sim.json'',
                        ComputeNetStateDiff [], WriteOutput ''list.txt'' []]))
   \<and> ComputeNetStateDiff []
       \<in> set [GetStateDiff ''0x567'', GetStateDiff ''./sim.json'', ComputeNetStateDiff [],
               WriteOutput ''list.txt'' []]
   \<and> (\<exists>txData w2 tr.
         resolve_lines (getStateDiff sample_source sample_source) (lines_of list_file) [] ((), [])
           = (Inr txData, (w2, tr))
         \<and> sorted (map blockNumber txData) \<and> [] = concat (map stateDiff txData))"
proof -
  let ?tr = "[GetStateDiff ''0x567'', GetStateDiff ''./sim.json'', ComputeNetStateDiff [],
              WriteOutput ''list.txt'' []]"
  have rf: "sample_readFile unordered_file ''list.txt'' () = (Inr unordered_file, ())"
    by (simp add: sample_readFile_def)
  have bn: "map blockNumber [tx_at 5, tx_at 7, tx_at 6] = [5, 7, 6]"
    by (simp add: tx_at_def)
  have ne: "''list.txt'' \<noteq> []" by simp
  have run: "main sample_source sample_source (sample_readFile list_file) sample_writeOutput
               (Some ''list.txt'') () = (Inr (), ((), ?tr))"
    using sample_main_list_file by (simp add: sample_main_def)
  have call: "ComputeNetStateDiff [] \<in> set ?tr" by simp
  have unordered: "main sample_source sample_source (sample_readFile unordered_file)
         sample_writeOutput (Some ''list.txt'') ()
       = (Inl (NotOrdered 7 6),
          ((), [GetStateDiff ''0x567'', GetStateDiff ''0x56789'', GetStateDiff ''0x5678'']))"
    using C6_validation_before_merge [of sample_source sample_source
        "sample_readFile unordered_file" sample_writeOutput None "()" "Inl MissingFilePath" "()"
        "[]" "[]" "''list.txt''" unordered_file "()" "[tx_at 5, tx_at 7, tx_at 6]" "()"
        "[GetStateDiff ''0x567'', GetStateDiff ''0x56789'', GetStateDiff ''0x5678'']",
        THEN conjunct2, THEN conjunct2, THEN mp,
        OF conjI [OF ne conjI [OF rf conjI [OF resolve_unordered_file bn]]]]
    by (rule conjunct1)
  have "\<exists>filePath fileContent w1 txData w2 tr.
          Some ''list.txt'' = Some filePath
          \<and> sample_readFile list_file filePath () = (Inr fileContent, w1)
          \<and> resolve_lines (getStateDiff sample_source sample_source) (lines_of fileContent) []
                (w1, []) = (Inr txData, (w2, tr))
          \<and> sorted (map blockNumber txData) \<and> [] = concat (map stateDiff txData)"
    by (rule C6_validation_before_merge [of sample_source sample_source
          "sample_readFile list_file" sample_writeOutput "Some ''list.txt''" "()" "Inr ()" "()"
          ?tr "[]", THEN conjunct1, THEN mp, OF conjI [OF run call]])
  then have ordered: "\<exists>txData w2 tr.
         resolve_lines (getStateDiff sample_source sample_source) (lines_of list_file) [] ((), [])
           = (Inr txData, (w2, tr))
         \<and> sorted (map blockNumber txData) \<and> [] = concat (map stateDiff txData)"
    by (simp add: sample_readFile_def)
  from rf resolve_unordered_file bn unordered run call ordered show ?thesis
    by (intro conjI)
qed

section \<open>The entries of the list file\<close>

lemma main_requested:
  assumes run: "main fetchTrace readSimulation readFile writeOutput (Some filePath) w = (res, (w', tr))"
    and rf: "readFile filePath w = (Inr fileContent, w1)"
  shows "(\<exists>n. requested tr = take n (entries fileContent))
         \<and> (res = Inr () \<longrightarrow> requested tr = entries fileContent)"
proof (cases "filePath = []")
  case True
  with run have "tr = []" and "res = Inl MissingFilePath" by (simp_all add: main_def)
  then show ?thesis by (auto simp: requested_def intro: exI [of _ 0])
next
  case nonempty: False
  obtain r2 w2 tr0 where rl:
    "resolve_lines (getStateDiff fetchTrace readSimulation) (lines_of fileContent) [] (w1, [])
       = (r2, (w2, tr0))"
    by (cases "resolve_lines (getStateDiff fetchTrace readSimulation) (lines_of fileContent) []
          (w1, [])") auto
  from resolve_lines_calls [OF rl] obtain n where
    n: "tr0 = map GetStateDiff (take n (entries fileContent))"
    and all: "(\<exists>tx. r2 = Inr tx) \<longrightarrow> tr0 = map GetStateDiff (entries fileContent)"
    by (auto simp: entries_lines_of)
  show ?thesis
  proof (cases r2)
    case (Inl e)
    with nonempty rf rl run have "tr = tr0" and "res = Inl e" by (simp_all add: main_def)
    with n show ?thesis by auto
  next
    case txs: (Inr txData)
    have full: "requested tr0 = entries fileContent"
      using all txs by simp
    have m: "main fetchTrace readSimulation readFile writeOutput (Some filePath) w =
           (case validate_order 1 txData of
              Inl e \<Rightarrow> (Inl e, (w2, tr0))
            | Inr u \<Rightarrow>
                (case computeNetStateDiff (concat (map stateDiff txData)) of
                   Inl e \<Rightarrow> (Inl e, (w2, tr0 @ [ComputeNetStateDiff (concat (map stateDiff txData))]))
                 | Inr netStateDiff \<Rightarrow>
                     (case writeOutput filePath netStateDiff w2 of
                        (r, w3) \<Rightarrow>
                          (r, (w3, (tr0 @ [ComputeNetStateDiff (concat (map stateDiff txData))])
                                   @ [WriteOutput filePath netStateDiff])))))"
      using nonempty rf rl txs by (intro main_resolved) simp_all
    have "requested tr = requested tr0"
      using m run by (auto simp: requested_def split: sum.splits prod.splits)
    with full show ?thesis by (metis take_all order_refl)
  qed
qed

text \<open>
  C9, as amended: empty lines are ignored, lines that begin with \<^verbatim>\<open>#\<close> or \<^verbatim>\<open>//\<close> are
  skipped, and of every other line the text before its first space character is what is
  resolved, the rest of the line being ignored. The entries resolved by a run are an
  initial part of these (a failure ends the run), and all of them when the run succeeds
  or when every resolution succeeds.
\<close>

theorem C9_first_space_piece_resolved:
  "(main fetchTrace readSimulation readFile writeOutput (Some filePath) w = (res, (w', tr))
      \<and> readFile filePath w = (Inr fileContent, w1)
    \<longrightarrow> (\<exists>n. requested tr = take n (entries fileContent))
        \<and> (res = Inr () \<longrightarrow> requested tr = entries fileContent))
   \<and> (resolve_lines g (lines_of fileContent) [] (w1, []) = (Inr txData, (w2, tr0))
    \<longrightarrow> requested tr0 = entries fileContent)"
proof (intro conjI impI)
  assume h: "main fetchTrace readSimulation readFile writeOutput (Some filePath) w = (res, (w', tr))
      \<and> readFile filePath w = (Inr fileContent, w1)"
  then have run: "main fetchTrace readSimulation readFile writeOutput (Some filePath) w = (res, (w', tr))"
    and rf: "readFile filePath w = (Inr fileContent, w1)" by simp_all
  from main_requested [OF run rf]
  show "\<exists>n. requested tr = take n (entries fileContent)" by blast
  assume "res = Inr ()"
  with main_requested [OF run rf] show "requested tr = entries fileContent" by blast
next
  assume "resolve_lines g (lines_of fileContent) [] (w1, []) = (Inr txData, (w2, tr0))"
  from resolve_lines_calls [OF this] show "requested tr0 = entries fileContent"
    by (simp add: entries_lines_of)
qed


theorem C9_first_space_piece_resolved_witness:
  "sample_main list_file =
     (Inr (), ((), [GetStateDiff ''0x567'', GetStateDiff ''./sim.json'', ComputeNetStateDiff [],
                    WriteOutput ''list.txt'' []]))
   \<and> sample_readFile list_file ''list.txt'' () = (Inr list_file, ())
   \<and> requested [GetStateDiff ''0x567'', GetStateDiff ''./sim.json'', ComputeNetStateDiff [],
                  WriteOutput ''list.txt'' []] = entries list_file
   \<and> entries list_file = [''0x567'', ''./sim.json'']"
proof -
  have rf: "sample_readFile list_file ''list.txt'' () = (Inr list_file, ())"
    by (simp add: sample_readFile_def)
  have e: "entries list_file = [''0x567'', ''./sim.json'']"
    by code_simp
  from C9_first_space_piece_resolved [of sample_source sample_source "sample_readFile list_file"
      sample_writeOutput "''list.txt''" "()" "Inr ()" "()"
      "[GetStateDiff ''0x567'', GetStateDiff ''./sim.json'', ComputeNetStateDiff [],
        WriteOutput ''list.txt'' []]" list_file "()"]
    sample_main_list_file rf
  have "requested [GetStateDiff ''0x567'', GetStateDiff ''./sim.json'', ComputeNetStateDiff [],
                  WriteOutput ''list.txt'' []] = entries list_file"
    unfolding sample_main_def by blast
  with sample_main_list_file rf e show ?thesis by blast
qed

text \<open>
  C9, as stated, fails: a tab is whitespace, but it does not end the entry. On the line
  \<^verbatim>\<open>0xab<TAB># note\<close> the program resolves \<^verbatim>\<open>0xab<TAB>#\<close>, not \<^verbatim>\<open>0xab\<close>.
\<close>

theorem C9_whitespace_counterexample:
  "requested (snd (snd (sample_main tab_file))) = [''0xab'' @ [CHR 0x09] @ ''#'']
   \<and> claimed_entries tab_file = [''0xab'']
   \<and> requested (snd (snd (sample_main tab_file))) \<noteq> claimed_entries tab_file"
  by code_simp

end
